theory Spec2Isabelle
  imports Main "HOL-Library.List_Lexorder" "HOL-Library.Multiset"
begin

section \<open>Exceptions\<close>

text \<open>
  A raised Python exception is a value: its class and its \<^verbatim>\<open>args\<close> tuple (the
  arguments are strings in every raise this module performs).  A computation that may
  raise returns \<open>exn + 'a\<close>, with \<open>Inl\<close> for the exception.
\<close>

datatype exc_class =
  RuntimeError | ValueError | TypeError | KeyError | IndexError | OtherError

datatype exn = Exn (exn_class: exc_class) (exn_args: "string list")

section \<open>File names: \<^verbatim>\<open>parse_file_name\<close>\<close>

text \<open>
  \<^verbatim>\<open>os.path.basename\<close> (POSIX): everything after the last slash.
\<close>

definition basename :: "string \<Rightarrow> string" where
  "basename p = rev (takeWhile (\<lambda>c. c \<noteq> CHR ''/'') (rev p))"

definition is_digit :: "char \<Rightarrow> bool" where
  "is_digit c = (c \<in> set ''0123456789'')"

definition newline :: char where
  "newline = CHR 0x0A"

text \<open>
  The two regular expressions are matched by a backtracking matcher written in
  continuation style: every combinator takes the matcher \<open>m\<close> of the rest of the
  pattern.  \<open>dot_star\<close> is the greedy \<^verbatim>\<open>.*\<close>: it first tries to swallow one more
  character (never a newline) and only gives characters back when the rest fails.
  \<open>digits\<close> is the group \<^verbatim>\<open>(\d+)\<close>: it captures the whole run of digits.  (A shorter
  capture is never needed: what follows a group is \<^verbatim>\<open>_\<close>, \<^verbatim>\<open>.*\<close> or the end of
  the pattern; lemma \<open>pattern_A_iff\<close> below checks the matcher against the declarative
  reading of the expression.)  Names are strings of 8-bit characters, \<^verbatim>\<open>\d\<close> is
  \<^verbatim>\<open>0\<close>..\<^verbatim>\<open>9\<close>.
\<close>

fun dot_star :: "(string \<Rightarrow> 'a option) \<Rightarrow> string \<Rightarrow> 'a option" where
  "dot_star m [] = m []"
| "dot_star m (c # cs) =
     (if c = newline then m (c # cs)
      else (case dot_star m cs of Some r \<Rightarrow> Some r | None \<Rightarrow> m (c # cs)))"

definition lit :: "char \<Rightarrow> (string \<Rightarrow> 'a option) \<Rightarrow> string \<Rightarrow> 'a option" where
  "lit k m s = (case s of [] \<Rightarrow> None | c # cs \<Rightarrow> if c = k then m cs else None)"

definition digits :: "(string \<Rightarrow> 'a option) \<Rightarrow> string \<Rightarrow> (string \<times> 'a) option" where
  "digits m s =
     (if takeWhile is_digit s = [] then None
      else map_option (Pair (takeWhile is_digit s)) (m (dropWhile is_digit s)))"

definition accept :: "string \<Rightarrow> unit option" where
  "accept s = Some ()"

text \<open>\<^verbatim>\<open>re.search('^.*x_(\d+).*y_(\d+).*z_(\d+).*', file_name)\<close>\<close>

definition pattern_A :: "string \<Rightarrow> (string \<times> string \<times> string \<times> unit) option" where
  "pattern_A =
     dot_star (lit CHR ''x'' (lit CHR ''_'' (digits
    (dot_star (lit CHR ''y'' (lit CHR ''_'' (digits
    (dot_star (lit CHR ''z'' (lit CHR ''_'' (digits
    (dot_star accept))))))))))))"

text \<open>\<^verbatim>\<open>re.search('^(\d+)_(\d+)_(\d+)', file_name)\<close>\<close>

definition pattern_B :: "string \<Rightarrow> (string \<times> string \<times> string \<times> unit) option" where
  "pattern_B = digits (lit CHR ''_'' (digits (lit CHR ''_'' (digits accept))))"

text \<open>\<^verbatim>\<open>int(m.group(i))\<close> on a string of decimal digits.\<close>

definition digit_val :: "char \<Rightarrow> int" where
  "digit_val c = of_char c - 48"

definition py_int :: "string \<Rightarrow> int" where
  "py_int ds = foldl (\<lambda>a c. 10 * a + digit_val c) 0 ds"

definition parse_file_name :: "string \<Rightarrow> exn + int list" where
  "parse_file_name file_name =
     (let file_name = basename file_name;
          m = pattern_A file_name;
          m = (if m = None then pattern_B file_name else m)
      in case m of
           None \<Rightarrow> Inl (Exn ValueError [''Invalid name '' @ file_name])
         | Some (gx, gy, gz, u) \<Rightarrow> Inr [py_int gx, py_int gy, py_int gz])"


text \<open>
  The declarative reading of the two expressions, used to state what "matches" means:
  \<open>key_then k rest\<close> holds of a string that has, after any characters of the first
  line, the key letter, an underscore and a non-empty run of digits, followed by a string
  satisfying \<open>rest\<close>; \<open>num_then rest\<close> holds of a string that starts with a non-empty run
  of digits followed by a string satisfying \<open>rest\<close>.
\<close>

definition digit_run :: "string \<Rightarrow> bool" where
  "digit_run d = (d \<noteq> [] \<and> list_all is_digit d)"

definition key_then :: "char \<Rightarrow> (string \<Rightarrow> bool) \<Rightarrow> string \<Rightarrow> bool" where
  "key_then k rest s = (\<exists>p d t. s = p @ [k, CHR ''_''] @ d @ t \<and> newline \<notin> set p \<and>
       digit_run d \<and> rest t)"

definition matches_A :: "string \<Rightarrow> bool" where
  "matches_A = key_then CHR ''x'' (key_then CHR ''y'' (key_then CHR ''z'' (\<lambda>t. True)))"

definition num_then :: "(string \<Rightarrow> bool) \<Rightarrow> string \<Rightarrow> bool" where
  "num_then rest s = (\<exists>d t. s = d @ t \<and> digit_run d \<and> rest t)"

definition matches_B :: "string \<Rightarrow> bool" where
  "matches_B = num_then (\<lambda>s. \<exists>t. s = CHR ''_'' # t \<and>
                 num_then (\<lambda>s. \<exists>t. s = CHR ''_'' # t \<and> num_then (\<lambda>t. True) t) t)"

section \<open>Catalog construction: \<^verbatim>\<open>load_dir\<close>\<close>

text \<open>
  Modelled from the spec: the class \<^verbatim>\<open>InputFile\<close> (module \<^verbatim>\<open>inputfile\<close>) is not part
  of the sources.  It is the MetadataReader collaborator: opened on a path as a scoped
  resource, it exposes \<^verbatim>\<open>nfrms\<close>, \<^verbatim>\<open>ysize\<close> and \<^verbatim>\<open>xsize\<close>, or fails.  The model takes
  it as a parameter: a function giving, for a path, the three integers (in the order the
  code reads them) or the exception that leaves the \<^verbatim>\<open>with\<close> block.

  \<^verbatim>\<open>os.walk\<close> is a parameter as well: for a top directory, the list of
  \<^verbatim>\<open>(root, dirs, files)\<close> triples it yields.
\<close>

type_synonym input_file = "string \<Rightarrow> exn + (int \<times> int \<times> int)"

type_synonym os_walk = "string \<Rightarrow> (string \<times> string list \<times> string list) list"

text \<open>An element of the flat list \<^verbatim>\<open>flist\<close>: an integer or a path.\<close>

datatype field = IntV int | StrV string

text \<open>The state of the traversal: \<^verbatim>\<open>flist\<close> and the messages given to \<^verbatim>\<open>logger.error\<close>.\<close>

type_synonym load_state = "field list \<times> string list"

text \<open>\<^verbatim>\<open>except (RuntimeError, ValueError) as e\<close>\<close>

definition caught :: "exn \<Rightarrow> bool" where
  "caught e = (case e of Exn c a \<Rightarrow> c = RuntimeError \<or> c = ValueError)"

text \<open>\<^verbatim>\<open>logger.error(e.args[0])\<close>; an empty \<^verbatim>\<open>args\<close> raises IndexError in the handler.\<close>

definition log_error :: "exn \<Rightarrow> string list \<Rightarrow> exn + string list" where
  "log_error e log =
     (case e of
        Exn c [] \<Rightarrow> Inl (Exn IndexError [''tuple index out of range''])
      | Exn c (a # as) \<Rightarrow> Inr (log @ [a]))"

definition parse_and_append :: "input_file \<Rightarrow> string \<Rightarrow> load_state \<Rightarrow> exn + load_state" where
  "parse_and_append InputFile name st =
     (case st of (flist, log) \<Rightarrow>
        (case (case parse_file_name name of
                 Inl e \<Rightarrow> Inl e
               | Inr fields \<Rightarrow>
                   (case InputFile name of
                      Inl e \<Rightarrow> Inl e
                    | Inr (n, ys, xs) \<Rightarrow>
                        Inr (flist @ map IntV (fields @ [n, ys, xs]) @ [StrV name]))) of
           Inr flist' \<Rightarrow> Inr (flist', log)
         | Inl e \<Rightarrow>
             if caught e then
               (case log_error e log of Inl e' \<Rightarrow> Inl e' | Inr log' \<Rightarrow> Inr (flist, log'))
             else Inl e))"

text \<open>\<^verbatim>\<open>os.path.join(root, f)\<close> (POSIX).\<close>

definition path_join :: "string \<Rightarrow> string \<Rightarrow> string" where
  "path_join a b =
     (if b \<noteq> [] \<and> hd b = CHR ''/'' then b
      else if a = [] \<or> last a = CHR ''/'' then a @ b
      else a @ ''/'' @ b)"

text \<open>
  The inner loop \<^verbatim>\<open>for f in files\<close>.  Both loops wrap the call of
  \<^verbatim>\<open>parse_and_append\<close> in a second \<^verbatim>\<open>try\<close> with the same handler; the model keeps it.
\<close>

fun files_loop :: "input_file \<Rightarrow> string \<Rightarrow> string list \<Rightarrow> load_state \<Rightarrow> exn + load_state" where
  "files_loop InputFile root [] st = Inr st"
| "files_loop InputFile root (f # fs) st =
     (case parse_and_append InputFile (path_join root f) st of
        Inr st' \<Rightarrow> files_loop InputFile root fs st'
      | Inl e \<Rightarrow>
          if caught e then
            (case log_error e (snd st) of
               Inl e' \<Rightarrow> Inl e'
             | Inr log' \<Rightarrow> files_loop InputFile root fs (fst st, log'))
          else Inl e)"

text \<open>
  The outer loop \<^verbatim>\<open>for root, dirs, files in os.walk(dir)\<close>.  When the base name of
  \<^verbatim>\<open>root\<close> is not empty, \<^verbatim>\<open>parse_and_append(root, flist)\<close> is called and, when it
  returns, \<^verbatim>\<open>continue\<close> skips the files of this directory; the files are reached only
  when the call raises into the handler, or when the base name is empty.
\<close>

fun walk_loop ::
  "input_file \<Rightarrow> (string \<times> string list \<times> string list) list \<Rightarrow> load_state \<Rightarrow> exn + load_state"
where
  "walk_loop InputFile [] st = Inr st"
| "walk_loop InputFile ((root, dirs, files) # rest) st =
     (if basename root \<noteq> [] then
        (case parse_and_append InputFile root st of
           Inr st' \<Rightarrow> walk_loop InputFile rest st'
         | Inl e \<Rightarrow>
             if caught e then
               (case log_error e (snd st) of
                  Inl e' \<Rightarrow> Inl e'
                | Inr log' \<Rightarrow>
                    (case files_loop InputFile root files (fst st, log') of
                       Inl e' \<Rightarrow> Inl e'
                     | Inr st' \<Rightarrow> walk_loop InputFile rest st'))
             else Inl e)
      else
        (case files_loop InputFile root files st of
           Inl e \<Rightarrow> Inl e
         | Inr st' \<Rightarrow> walk_loop InputFile rest st'))"

text \<open>The slice \<^verbatim>\<open>flist[k::7]\<close> is \<open>every7 (drop k flist)\<close>.\<close>

fun every7 :: "'a list \<Rightarrow> 'a list" where
  "every7 [] = []"
| "every7 (x # xs) = x # every7 (drop 6 xs)"

text \<open>
  A row of the table before \<^verbatim>\<open>Z_end\<close> is added: X, Y, Z, nfrms, ysize, xsize, filename.
\<close>

type_synonym raw_row = "int \<times> int \<times> int \<times> int \<times> int \<times> int \<times> string"

definition raw_Z :: "raw_row \<Rightarrow> int" where
  "raw_Z = (\<lambda>(x, y, z, n, ys, xs, f). z)"

definition raw_Y :: "raw_row \<Rightarrow> int" where
  "raw_Y = (\<lambda>(x, y, z, n, ys, xs, f). y)"

definition raw_X :: "raw_row \<Rightarrow> int" where
  "raw_X = (\<lambda>(x, y, z, n, ys, xs, f). x)"

text \<open>
  One row of \<^verbatim>\<open>pd.DataFrame(data)\<close> from the cells of the seven columns.  The numeric
  columns are later compared and added; a cell of the wrong kind makes that raise
  TypeError (the traversal never produces one, see \<open>DataFrame_seven\<close>).
\<close>

fun make_row :: "field list \<Rightarrow> raw_row option" where
  "make_row [IntV x, IntV y, IntV z, IntV n, IntV ys, IntV xs, StrV f] = Some (x, y, z, n, ys, xs, f)"
| "make_row cells = None"

text \<open>
  \<^verbatim>\<open>pd.DataFrame(data)\<close>: columns of different lengths raise ValueError; otherwise the
  rows are labelled 0, 1, 2, ... in list order.
\<close>

definition DataFrame :: "field list \<Rightarrow> exn + (nat \<times> raw_row) list" where
  "DataFrame flist =
     (let cols = map (\<lambda>k. every7 (drop k flist)) [0..<7] in
      if list_ex (\<lambda>c. length c \<noteq> length (hd cols)) cols
      then Inl (Exn ValueError [''arrays must all be same length''])
      else (let rs = map (\<lambda>i. make_row (map (\<lambda>c. c ! i) cols)) [0..<length (hd cols)] in
            if list_ex (\<lambda>r. r = None) rs
            then Inl (Exn TypeError [''unsupported operand type(s)''])
            else Inr (zip [0..<length rs] (map the rs))))"

record tile =
  X :: int
  Y :: int
  Z :: int
  nfrms :: int
  ysize :: int
  xsize :: int
  filename :: string
  Z_end :: int

text \<open>\<^verbatim>\<open>df['Z_end'] = df['Z'] + df['nfrms']\<close>\<close>

definition add_Z_end :: "raw_row \<Rightarrow> tile" where
  "add_Z_end = (\<lambda>(x, y, z, n, ys, xs, f).
     \<lparr>X = x, Y = y, Z = z, nfrms = n, ysize = ys, xsize = xs, filename = f, Z_end = z + n\<rparr>)"

text \<open>
  The data frame: the rows in table order, each with its index label, and the further
  integer columns that have been added to it by name (\<^verbatim>\<open>load_dir\<close> adds none;
  \<^verbatim>\<open>full_height\<close> reads the column \<^verbatim>\<open>Ys\<close>).  A further column gives a value for
  every label.
\<close>

record data_frame =
  rows :: "(nat \<times> tile) list"
  columns_extra :: "string \<Rightarrow> (nat \<Rightarrow> int) option"

record FileMatrix =
  dir :: string
  data_frame :: data_frame
  ascending_tiles_X :: bool
  ascending_tiles_Y :: bool

text \<open>
  \<^verbatim>\<open>load_dir\<close>: returns the data frame and the log.  \<^verbatim>\<open>df.sort_values(['Z', 'Y', 'X'])\<close>
  on several columns is pandas' stable lexicographic sort; the rows keep their labels.
\<close>

definition load_dir :: "input_file \<Rightarrow> os_walk \<Rightarrow> string \<Rightarrow> exn + (data_frame \<times> string list)" where
  "load_dir InputFile walk d =
     (case walk_loop InputFile (walk d) ([], []) of
        Inl e \<Rightarrow> Inl e
      | Inr (flist, log) \<Rightarrow>
          (case DataFrame flist of
             Inl e \<Rightarrow> Inl e
           | Inr df \<Rightarrow>
               (let df = sort_key (\<lambda>(i, r). [raw_Z r, raw_Y r, raw_X r]) df;
                    df = map (\<lambda>(i, r). (i, add_Z_end r)) df
                in Inr (\<lparr>rows = df, columns_extra = (\<lambda>c. None)\<rparr>, log))))"

text \<open>\<^verbatim>\<open>FileMatrix(directory)\<close>\<close>

definition FileMatrix_init :: "input_file \<Rightarrow> os_walk \<Rightarrow> string \<Rightarrow> exn + (FileMatrix \<times> string list)" where
  "FileMatrix_init InputFile walk directory =
     (case load_dir InputFile walk directory of
        Inl e \<Rightarrow> Inl e
      | Inr (df, log) \<Rightarrow>
          Inr (\<lparr>dir = directory, data_frame = df,
                ascending_tiles_X = True, ascending_tiles_Y = True\<rparr>, log))"

section \<open>Slices\<close>

text \<open>
  The index labels of the view \<^verbatim>\<open>df[(df['Z'] <= row['Z']) & (df['Z_end'] >= row['Z_end'])]\<close>,
  in table order.  The row itself always belongs to its view (\<open>view_index_self\<close>), so
  the reads \<^verbatim>\<open>values[0]\<close> and \<^verbatim>\<open>values[-1]\<close> are in range.
\<close>

definition view_index :: "(nat \<times> tile) list \<Rightarrow> tile \<Rightarrow> nat list" where
  "view_index rs row = map fst (filter (\<lambda>(j, u). Z u \<le> Z row \<and> Z_end u \<ge> Z_end row) rs)"

text \<open>The edges added for one row: consecutive labels of the view, then first and last.\<close>

definition row_edges :: "(nat \<times> tile) list \<Rightarrow> tile \<Rightarrow> (nat \<times> nat) list" where
  "row_edges rs row = (let v = view_index rs row in zip v (tl v) @ [(hd v, last v)])"

definition graph_edges :: "(nat \<times> tile) list \<Rightarrow> (nat \<times> nat) list" where
  "graph_edges rs = concat (map (\<lambda>(i, row). row_edges rs row) rs)"

text \<open>\<^verbatim>\<open>G.add_node(index)\<close> for every row: a label already present is not added again.\<close>

definition graph_nodes :: "(nat \<times> tile) list \<Rightarrow> nat list" where
  "graph_nodes rs = fold (\<lambda>(i, row) ns. if i \<in> set ns then ns else ns @ [i]) rs []"

text \<open>
  Connected components of the undirected graph, as networkx computes them
  (\<^verbatim>\<open>connected_component_subgraphs\<close>, networkx before 2.4): the nodes are
  visited in the order they were added; a node not seen yet starts a new component, which
  holds every node joined to it by a path of edges.  A component is a set in networkx; the
  model lists its labels in the order the nodes were added.
\<close>

definition connected :: "(nat \<times> nat) list \<Rightarrow> nat \<Rightarrow> nat \<Rightarrow> bool" where
  "connected es u v = (u = v \<or> (u, v) \<in> (set (es @ map (\<lambda>(a, b). (b, a)) es))\<^sup>+)"

fun components :: "(nat \<times> nat) list \<Rightarrow> nat list \<Rightarrow> nat list \<Rightarrow> nat list \<Rightarrow> nat list list" where
  "components es nodes seen [] = []"
| "components es nodes seen (v # vs) =
     (if v \<in> set seen then components es nodes seen vs
      else (let c = filter (connected es v) nodes
            in c # components es nodes (seen @ c) vs))"

definition slices :: "data_frame \<Rightarrow> nat list list" where
  "slices df =
     (let nodes = graph_nodes (rows df); es = graph_edges (rows df)
      in components es nodes [] nodes)"

section \<open>Directional grouping\<close>

datatype colname = CX | CY | CZ

fun col :: "colname \<Rightarrow> tile \<Rightarrow> int" where
  "col CX t = X t"
| "col CY t = Y t"
| "col CZ t = Z t"

text \<open>\<^verbatim>\<open>self.data_frame.loc[s.nodes()]\<close>: the rows with the given labels, in the order given.\<close>

definition loc :: "(nat \<times> tile) list \<Rightarrow> nat list \<Rightarrow> (nat \<times> tile) list" where
  "loc rs labels = concat (map (\<lambda>i. filter (\<lambda>r. fst r = i) rs) labels)"

text \<open>
  \<^verbatim>\<open>sort_values(by, ascending=flag)\<close> with one boolean: pandas applies the direction to
  every column of \<^verbatim>\<open>by\<close>, and sorts stably (the descending sort compares the reversed
  codes of each column).
\<close>

definition sort_keys :: "colname list \<Rightarrow> bool \<Rightarrow> nat \<times> tile \<Rightarrow> int list" where
  "sort_keys keys ascending r =
     map (\<lambda>c. if ascending then col c (snd r) else - col c (snd r)) keys"

definition sort_values :: "colname list \<Rightarrow> bool \<Rightarrow> (nat \<times> tile) list \<Rightarrow> (nat \<times> tile) list" where
  "sort_values keys ascending rs = sort_key (sort_keys keys ascending) rs"

text \<open>
  \<^verbatim>\<open>groupby(c)\<close> and the iteration over it: one group for every value of the column, the
  groups in increasing order of the value (\<^verbatim>\<open>sort=True\<close> is the default), each group
  holding the rows with that value in the order of the frame.
\<close>

definition groupby :: "colname \<Rightarrow> (nat \<times> tile) list \<Rightarrow> (int \<times> (nat \<times> tile) list) list" where
  "groupby c rs =
     map (\<lambda>k. (k, filter (\<lambda>r. col c (snd r) = k) rs))
         (sort (remdups (map (\<lambda>r. col c (snd r)) rs)))"

text \<open>The body of the loop of \<^verbatim>\<open>tiles_along_dir\<close> for one slice, after \<open>got\<close> was received.\<close>

type_synonym sent = "colname list \<times> bool \<times> colname"

definition slice_groups :: "data_frame \<Rightarrow> nat list \<Rightarrow> sent \<Rightarrow> (nat \<times> tile) list list" where
  "slice_groups df s got =
     (case got of (keys, ascending, key) \<Rightarrow>
        map snd (groupby key (sort_values keys ascending (loc (rows df) s))))"

text \<open>
  A generator run to exhaustion is the list of the values it yields and the exception that
  ends it, if any.  A yielded value is \<open>None\<close> (Python's \<^verbatim>\<open>None\<close>) or a group.

  \<open>tiles_along_dir df ss sends\<close> is the generator \<^verbatim>\<open>tiles_along_dir\<close> over the slices
  \<open>ss\<close>: for every slice it first yields \<^verbatim>\<open>None\<close> (the bare \<^verbatim>\<open>yield\<close>) and takes as
  \<open>got\<close> the value it is resumed with, the next element of \<open>sends\<close>; a resumption by
  \<^verbatim>\<open>next\<close>, or after \<open>sends\<close> is used up, delivers \<^verbatim>\<open>None\<close>, and \<^verbatim>\<open>got[0]\<close> then
  raises TypeError.
\<close>

fun tiles_along_dir ::
  "data_frame \<Rightarrow> nat list list \<Rightarrow> sent option list
     \<Rightarrow> (nat \<times> tile) list option list \<times> exn option"
where
  "tiles_along_dir df [] sends = ([], None)"
| "tiles_along_dir df (s # ss) sends =
     (case (case sends of [] \<Rightarrow> None | g # gs \<Rightarrow> g) of
        None \<Rightarrow> ([None], Some (Exn TypeError [''NoneType object is not subscriptable'']))
      | Some got \<Rightarrow>
          (case tiles_along_dir df ss (tl sends) of (ys, e) \<Rightarrow>
             (None # map Some (slice_groups df s got) @ ys, e)))"

text \<open>
  A \<^verbatim>\<open>StopIteration\<close> that escapes inside a generator body ends that generator silently
  before PEP 479 and is turned into RuntimeError with it (Python 3.7 and later); the
  flag \<open>pep479\<close> selects the behaviour.
\<close>

definition stop_iteration :: "bool \<Rightarrow> exn option \<Rightarrow> exn option" where
  "stop_iteration pep479 e =
     (case e of
        Some x \<Rightarrow> Some x
      | None \<Rightarrow> if pep479 then Some (Exn RuntimeError [''generator raised StopIteration'']) else None)"

text \<open>
  The two wrappers: \<^verbatim>\<open>next(g)\<close> takes the first value of \<open>g\<close>, \<^verbatim>\<open>g.send(...)\<close> the second,
  which is yielded, and \<^verbatim>\<open>yield from g\<close> passes on everything else, the final exception
  included.
\<close>

definition drive ::
  "bool \<Rightarrow> 'a list \<times> exn option \<Rightarrow> 'a list \<times> exn option" where
  "drive pep479 g =
     (case g of
        ([], e) \<Rightarrow> ([], stop_iteration pep479 e)
      | ([y0], e) \<Rightarrow> ([], stop_iteration pep479 e)
      | (y0 # y1 # ys, e) \<Rightarrow> (y1 # ys, e))"

definition tiles_along_X ::
  "bool \<Rightarrow> FileMatrix \<Rightarrow> (nat \<times> tile) list option list \<times> exn option" where
  "tiles_along_X pep479 fm =
     drive pep479 (tiles_along_dir (data_frame fm) (slices (data_frame fm))
       [Some ([CZ, CX, CY], ascending_tiles_X fm, CY)])"

definition tiles_along_Y ::
  "bool \<Rightarrow> FileMatrix \<Rightarrow> (nat \<times> tile) list option list \<times> exn option" where
  "tiles_along_Y pep479 fm =
     drive pep479 (tiles_along_dir (data_frame fm) (slices (data_frame fm))
       [Some ([CZ, CY, CX], ascending_tiles_Y fm, CX)])"

section \<open>Total height\<close>

text \<open>
  The column \<^verbatim>\<open>Ys\<close> is modelled with integer values.  \<^verbatim>\<open>diff()\<close> turns them into
  floats whose first entry is NaN (\<open>None\<close> here); on the other entries, which are whole
  numbers, \<^verbatim>\<open>int(round(x))\<close> returns the number itself.
\<close>

definition rint :: "int option \<Rightarrow> int" where
  "rint x = (case x of None \<Rightarrow> 0 | Some v \<Rightarrow> v)"

definition diff :: "int list \<Rightarrow> int option list" where
  "diff xs = (case xs of [] \<Rightarrow> [] | x # r \<Rightarrow> None # map (\<lambda>(a, b). Some (b - a)) (zip xs r))"

text \<open>One step of \<^verbatim>\<open>gen\<close>: the value computed for one item of \<^verbatim>\<open>tiles_along_Y\<close>.\<close>

definition gen_value :: "data_frame \<Rightarrow> (nat \<times> tile) list option \<Rightarrow> exn + int" where
  "gen_value df item =
     (case item of
        None \<Rightarrow> Inl (Exn TypeError [''NoneType object is not subscriptable''])
      | Some grp \<Rightarrow>
          (case columns_extra df ''Ys'' of
             None \<Rightarrow> Inl (Exn KeyError [''Ys''])
           | Some ys \<Rightarrow>
               (case grp of
                  [] \<Rightarrow> Inl (Exn IndexError [''single positional indexer is out-of-bounds''])
                | first # others \<Rightarrow>
                    (let overlap_sum =
                           sum_list (map (\<lambda>(a, d). a - rint d)
                             (zip (map (\<lambda>r. ysize (snd r)) grp)
                                  (diff (map (\<lambda>r. ys (fst r)) grp))));
                         overlap_sum = overlap_sum - ysize (snd first)
                     in Inr (rint (Some (sum_list (map (\<lambda>r. ysize (snd r)) grp)
                                   - overlap_sum + ys (fst first))))))))"

fun gen :: "data_frame \<Rightarrow> (nat \<times> tile) list option list \<Rightarrow> exn + int list" where
  "gen df [] = Inr []"
| "gen df (item # items) =
     (case gen_value df item of
        Inl e \<Rightarrow> Inl e
      | Inr v \<Rightarrow> (case gen df items of Inl e \<Rightarrow> Inl e | Inr vs \<Rightarrow> Inr (v # vs)))"

text \<open>
  \<^verbatim>\<open>max(x for x in gen())\<close>: an exception while an item is processed comes first, then
  the exception that ends \<^verbatim>\<open>tiles_along_Y\<close>; \<^verbatim>\<open>max\<close> of no value raises ValueError.
\<close>

definition full_height :: "bool \<Rightarrow> FileMatrix \<Rightarrow> exn + int" where
  "full_height pep479 fm =
     (case tiles_along_Y pep479 fm of (items, e) \<Rightarrow>
        (case gen (data_frame fm) items of
           Inl x \<Rightarrow> Inl x
         | Inr vs \<Rightarrow>
             (case e of
                Some x \<Rightarrow> Inl x
              | None \<Rightarrow>
                  (case vs of
                     [] \<Rightarrow> Inl (Exn ValueError [''max() arg is an empty sequence''])
                   | v # r \<Rightarrow> Inr (fold max r v)))))"

section \<open>Notions used to state the properties\<close>

subsection \<open>Candidates and their outcome\<close>

text \<open>
  The candidates of a traversal are the paths handed to \<^verbatim>\<open>parse_and_append\<close>, in order:
  the directory itself when its base name is not empty, its files otherwise.
\<close>

definition candidates :: "(string \<times> string list \<times> string list) list \<Rightarrow> string list" where
  "candidates w =
     concat (map (\<lambda>(root, dirs, files).
                    if basename root \<noteq> [] then [root] else map (path_join root) files) w)"

text \<open>What one candidate gives: its record, or the exception of the parse or of the read.\<close>

definition outcome :: "input_file \<Rightarrow> string \<Rightarrow> exn + raw_row" where
  "outcome InputFile name =
     (case parse_file_name name of
        Inl e \<Rightarrow> Inl e
      | Inr flds \<Rightarrow>
          (case InputFile name of
             Inl e \<Rightarrow> Inl e
           | Inr (n, ys, xs) \<Rightarrow> Inr (flds ! 0, flds ! 1, flds ! 2, n, ys, xs, name)))"

definition seven :: "raw_row \<Rightarrow> field list" where
  "seven = (\<lambda>(x, y, z, n, ys, xs, f). [IntV x, IntV y, IntV z, IntV n, IntV ys, IntV xs, StrV f])"

definition contribution :: "input_file \<Rightarrow> string \<Rightarrow> field list" where
  "contribution InputFile name = (case outcome InputFile name of Inl e \<Rightarrow> [] | Inr r \<Rightarrow> seven r)"

definition survivors :: "input_file \<Rightarrow> string list \<Rightarrow> raw_row list" where
  "survivors InputFile names =
     concat (map (\<lambda>name. case outcome InputFile name of Inl e \<Rightarrow> [] | Inr r \<Rightarrow> [r]) names)"

text \<open>
  An exception that the handlers of \<^verbatim>\<open>load_dir\<close> can log: one of the two classes they
  catch, with a first argument.
\<close>

definition loggable :: "exn \<Rightarrow> bool" where
  "loggable e = ((exn_class e = RuntimeError \<or> exn_class e = ValueError) \<and> exn_args e \<noteq> [])"

definition failure_log :: "input_file \<Rightarrow> string list \<Rightarrow> string list" where
  "failure_log InputFile names =
     concat (map (\<lambda>name. case outcome InputFile name of
                            Inl e \<Rightarrow> take 1 (exn_args e)
                          | Inr r \<Rightarrow> []) names)"

definition all_loggable :: "input_file \<Rightarrow> string list \<Rightarrow> bool" where
  "all_loggable InputFile names =
     list_all (\<lambda>name. case outcome InputFile name of Inl e \<Rightarrow> loggable e | Inr r \<Rightarrow> True) names"

text \<open>The table \<^verbatim>\<open>load_dir\<close> builds from a list of records.\<close>

definition table_of :: "raw_row list \<Rightarrow> data_frame" where
  "table_of rs =
     \<lparr>rows = map (\<lambda>(i, r). (i, add_Z_end r))
               (sort_key (\<lambda>(i, r). [raw_Z r, raw_Y r, raw_X r]) (zip [0..<length rs] rs)),
      columns_extra = (\<lambda>c. None)\<rparr>"

subsection \<open>Example inputs\<close>

text \<open>
  A reader that reads every path but one, a reader that reads every path, and two
  directory listings: four files directly in the top directory, and one file in it.
\<close>

definition example_reader :: input_file where
  "example_reader name =
     (if name = ''tiles/1_1_1.raw'' then Inl (Exn RuntimeError [''cannot open''])
      else Inr (10, 100, 100))"

definition example_walk :: os_walk where
  "example_walk d = [(d, [], [''0_0_0'', ''junk'', ''1_1_1.raw'', ''0_90_0''])]"

definition plain_reader :: input_file where
  "plain_reader name = Inr (10, 100, 100)"

definition one_file_walk :: os_walk where
  "one_file_walk d = [(d, [], [''x_1_y_2_z_3.tif''])]"

subsection \<open>Graphs\<close>

text \<open>The edges read in both directions.\<close>

definition sym_edges :: "(nat \<times> nat) list \<Rightarrow> (nat \<times> nat) set" where
  "sym_edges es = set (es @ map (\<lambda>(a, b). (b, a)) es)"

subsection \<open>Sort keys and column extents\<close>

text \<open>The values of the sort columns of a row, as they are.\<close>

definition key_of :: "colname list \<Rightarrow> nat \<times> tile \<Rightarrow> int list" where
  "key_of keys r = map (\<lambda>c. col c (snd r)) keys"

text \<open>
  The extent of one column of tiles (a group of \<^verbatim>\<open>tiles_along_Y\<close>), from the further
  column \<open>ys\<close>: the differences of successive values, the first taken as zero; the overlap
  contribution \<open>ysize - difference\<close> of every tile; the sum of \<open>ysize\<close>, minus the sum of
  the contributions, plus the \<open>ysize\<close> and the \<open>ys\<close> value of the first tile.
\<close>

definition rounded_diffs :: "(nat \<Rightarrow> int) \<Rightarrow> (nat \<times> tile) list \<Rightarrow> int list" where
  "rounded_diffs ys g = map rint (diff (map (\<lambda>r. ys (fst r)) g))"

definition overlap_contributions :: "(nat \<Rightarrow> int) \<Rightarrow> (nat \<times> tile) list \<Rightarrow> int list" where
  "overlap_contributions ys g = map (\<lambda>(r, d). ysize (snd r) - d) (zip g (rounded_diffs ys g))"

definition column_extent :: "(nat \<Rightarrow> int) \<Rightarrow> (nat \<times> tile) list \<Rightarrow> int" where
  "column_extent ys g =
     sum_list (map (\<lambda>r. ysize (snd r)) g) - sum_list (overlap_contributions ys g)
       + ysize (snd (hd g)) + ys (fst (hd g))"


subsection \<open>Example catalogs\<close>

text \<open>
  A directory whose files all lie directly in it, a reader that gives the same dimensions
  for every path, and the catalogs that \<^verbatim>\<open>FileMatrix(directory)\<close> builds from them (lemma
  \<open>loaded_examples\<close>): two tiles stacked along Y, a single tile, two tiles in separate depth
  ranges, two tiles at crossed positions, two tiles side by side, and no tile.
\<close>

definition flat_walk :: "string list \<Rightarrow> os_walk" where
  "flat_walk files d = [(d, [], files)]"

definition const_reader :: "int \<Rightarrow> int \<Rightarrow> int \<Rightarrow> input_file" where
  "const_reader n ys xs name = Inr (n, ys, xs)"

definition mk_tile :: "int \<Rightarrow> int \<Rightarrow> int \<Rightarrow> int \<Rightarrow> int \<Rightarrow> int \<Rightarrow> string \<Rightarrow> tile" where
  "mk_tile x y z n ys xs f = add_Z_end (x, y, z, n, ys, xs, f)"

definition catalog :: "string \<Rightarrow> (nat \<times> tile) list \<Rightarrow> FileMatrix" where
  "catalog d rs =
     \<lparr>dir = d, data_frame = \<lparr>rows = rs, columns_extra = (\<lambda>c. None)\<rparr>,
      ascending_tiles_X = True, ascending_tiles_Y = True\<rparr>"

definition two_stacked :: FileMatrix where
  "two_stacked = catalog ''tiles/''
     [(0, mk_tile 0 0 0 10 100 100 ''tiles/0_0_0''), (1, mk_tile 0 90 0 10 100 100 ''tiles/0_90_0'')]"

definition single_tile :: FileMatrix where
  "single_tile = catalog ''tiles/'' [(0, mk_tile 0 0 0 10 50 50 ''tiles/0_0_0'')]"

definition two_slices :: FileMatrix where
  "two_slices = catalog ''tiles/''
     [(0, mk_tile 0 0 0 5 100 100 ''tiles/0_0_0''), (1, mk_tile 0 0 10 5 100 100 ''tiles/0_0_10'')]"

definition crossed :: FileMatrix where
  "crossed = catalog ''tiles/''
     [(1, mk_tile 1 0 0 10 100 100 ''tiles/1_0_0''), (0, mk_tile 0 1 0 10 100 100 ''tiles/0_1_0'')]"

definition side_by_side :: FileMatrix where
  "side_by_side = catalog ''tiles/''
     [(0, mk_tile 0 0 0 10 100 100 ''tiles/0_0_0''), (1, mk_tile 1 0 0 10 100 100 ''tiles/1_0_0'')]"

definition no_tiles :: FileMatrix where
  "no_tiles = catalog ''tiles/'' []"



subsection \<open>The specification's wording, where the code does otherwise\<close>

text \<open>
  C2: the flattened sequence of the groups of every slice in turn.
\<close>

definition all_groups :: "data_frame \<Rightarrow> sent \<Rightarrow> (nat \<times> tile) list list" where
  "all_groups df got = concat (map (\<lambda>s. slice_groups df s got) (slices df))"

text \<open>
  C4: the maximal runs of equal key value of a sequence, in the order they are encountered.
\<close>

function runs :: "('a \<Rightarrow> int) \<Rightarrow> 'a list \<Rightarrow> 'a list list" where
  "runs f [] = []"
| "runs f (x # xs) =
     (x # takeWhile (\<lambda>y. f y = f x) xs) # runs f (dropWhile (\<lambda>y. f y = f x) xs)"
  by pat_completeness auto
termination
  by (relation "measure (\<lambda>(f, xs). length xs)") (auto simp: length_dropWhile_le less_Suc_eq_le)

definition claimed_groups :: "data_frame \<Rightarrow> nat list \<Rightarrow> sent \<Rightarrow> (nat \<times> tile) list list" where
  "claimed_groups df s got =
     (case got of (keys, ascending, key) \<Rightarrow>
        runs (\<lambda>r. col key (snd r)) (sort_values keys ascending (loc (rows df) s)))"

text \<open>
  C5: a sort in which the flag sets the direction of the first key only.
\<close>

definition claimed_sort_keys :: "colname list \<Rightarrow> bool \<Rightarrow> nat \<times> tile \<Rightarrow> int list" where
  "claimed_sort_keys keys ascending r =
     (case keys of
        [] \<Rightarrow> []
      | k # ks \<Rightarrow> (if ascending then col k (snd r) else - col k (snd r)) # map (\<lambda>c. col c (snd r)) ks)"

definition claimed_sort_values ::
  "colname list \<Rightarrow> bool \<Rightarrow> (nat \<times> tile) list \<Rightarrow> (nat \<times> tile) list" where
  "claimed_sort_values keys ascending rs = sort_key (claimed_sort_keys keys ascending) rs"

section \<open>Properties of \<^verbatim>\<open>parse_file_name\<close>\<close>

text \<open>
  The matcher agrees with the declarative reading of the two expressions: \<open>dot_star\<close>
  skips any characters of the first line, a literal takes its character, and \<open>digits\<close>
  takes a run of digits provided the rest of the pattern does not care about digits in
  front of it.
\<close>

lemma dot_star_iff:
  "(dot_star m s \<noteq> None) = (\<exists>p r. s = p @ r \<and> newline \<notin> set p \<and> m r \<noteq> None)"
proof (induction s)
  case Nil
  then show ?case by simp
next
  case (Cons c cs)
  show ?case
  proof (cases "c = newline")
    case True
    then show ?thesis
      apply simp
      apply (rule iffI)
       apply (rule exI[of _ "[]"]) apply simp
      apply (elim exE conjE)
      subgoal for p r by (cases p) auto
      done
  next
    case False
    have "(dot_star m (c # cs) \<noteq> None) = (dot_star m cs \<noteq> None \<or> m (c # cs) \<noteq> None)"
      using False by (simp split: option.splits)
    also have "\<dots> = ((\<exists>p r. cs = p @ r \<and> newline \<notin> set p \<and> m r \<noteq> None) \<or> m (c # cs) \<noteq> None)"
      using Cons.IH by simp
    also have "\<dots> = (\<exists>p r. c # cs = p @ r \<and> newline \<notin> set p \<and> m r \<noteq> None)"
    proof (rule iffI)
      assume "(\<exists>p r. cs = p @ r \<and> newline \<notin> set p \<and> m r \<noteq> None) \<or> m (c # cs) \<noteq> None"
      then show "\<exists>p r. c # cs = p @ r \<and> newline \<notin> set p \<and> m r \<noteq> None"
      proof
        assume "\<exists>p r. cs = p @ r \<and> newline \<notin> set p \<and> m r \<noteq> None"
        then obtain p r where "cs = p @ r" "newline \<notin> set p" "m r \<noteq> None" by blast
        then have "c # cs = (c # p) @ r \<and> newline \<notin> set (c # p) \<and> m r \<noteq> None"
          using False by auto
        then show ?thesis by blast
      next
        assume "m (c # cs) \<noteq> None"
        then have "c # cs = [] @ (c # cs) \<and> newline \<notin> set [] \<and> m (c # cs) \<noteq> None" by simp
        then show ?thesis by blast
      qed
    next
      assume "\<exists>p r. c # cs = p @ r \<and> newline \<notin> set p \<and> m r \<noteq> None"
      then obtain p r where pr: "c # cs = p @ r" "newline \<notin> set p" "m r \<noteq> None" by blast
      show "(\<exists>p r. cs = p @ r \<and> newline \<notin> set p \<and> m r \<noteq> None) \<or> m (c # cs) \<noteq> None"
      proof (cases p)
        case Nil
        then show ?thesis using pr by simp
      next
        case (Cons a p')
        then have "cs = p' @ r \<and> newline \<notin> set p' \<and> m r \<noteq> None" using pr by auto
        then show ?thesis by blast
      qed
    qed
    finally show ?thesis .
  qed
qed

lemma lit_iff: "(lit k m s \<noteq> None) = (\<exists>r. s = k # r \<and> m r \<noteq> None)"
  by (cases s) (auto simp: lit_def)

lemma digits_iff:
  assumes absorb: "\<And>d r. list_all is_digit d \<Longrightarrow> m (d @ r) \<noteq> None \<Longrightarrow> m r \<noteq> None"
  shows "(digits m s \<noteq> None) = (\<exists>d r. s = d @ r \<and> digit_run d \<and> m r \<noteq> None)"
proof
  assume "digits m s \<noteq> None"
  then have a: "takeWhile is_digit s \<noteq> []" and b: "m (dropWhile is_digit s) \<noteq> None"
    by (auto simp: digits_def split: if_splits)
  have "s = takeWhile is_digit s @ dropWhile is_digit s" by simp
  moreover have "digit_run (takeWhile is_digit s)"
    using a by (auto simp: digit_run_def list_all_iff dest: set_takeWhileD)
  ultimately show "\<exists>d r. s = d @ r \<and> digit_run d \<and> m r \<noteq> None" using b by blast
next
  assume "\<exists>d r. s = d @ r \<and> digit_run d \<and> m r \<noteq> None"
  then obtain d r where s: "s = d @ r" and d: "digit_run d" and m: "m r \<noteq> None" by blast
  have all: "\<forall>x\<in>set d. is_digit x" using d by (simp add: digit_run_def list_all_iff)
  have tw: "takeWhile is_digit s = d @ takeWhile is_digit r"
    using all by (simp add: s takeWhile_append2)
  have dw: "dropWhile is_digit s = dropWhile is_digit r"
    using all by (simp add: s dropWhile_append2)
  have "m (takeWhile is_digit r @ dropWhile is_digit r) \<noteq> None" using m by simp
  then have "m (dropWhile is_digit r) \<noteq> None"
    by (rule absorb[rotated]) (auto simp: list_all_iff dest: set_takeWhileD)
  moreover have "takeWhile is_digit s \<noteq> []" using tw d by (simp add: digit_run_def)
  ultimately show "digits m s \<noteq> None" by (simp add: digits_def dw)
qed


lemma is_digit_not_newline: "is_digit c \<Longrightarrow> c \<noteq> newline"
  by (auto simp: is_digit_def newline_def)

lemma absorb_dot_lit:
  "\<not> is_digit k \<Longrightarrow> list_all is_digit d \<Longrightarrow> dot_star (lit k m) (d @ r) \<noteq> None
     \<Longrightarrow> dot_star (lit k m) r \<noteq> None"
proof (induction d)
  case Nil
  then show ?case by simp
next
  case (Cons c d)
  have c: "is_digit c" "c \<noteq> newline" "c \<noteq> k"
    using Cons.prems by (auto simp: is_digit_not_newline)
  have "lit k m (c # d @ r) = None" using c by (simp add: lit_def)
  then have "dot_star (lit k m) (d @ r) \<noteq> None"
    using Cons.prems(3) c by (auto split: option.splits)
  then show ?case using Cons by simp
qed

lemma dot_star_accept: "dot_star accept s \<noteq> None"
  by (induction s) (auto simp: accept_def split: option.splits)

lemma absorb_lit:
  "\<not> is_digit k \<Longrightarrow> list_all is_digit d \<Longrightarrow> lit k m (d @ r) \<noteq> None \<Longrightarrow> lit k m r \<noteq> None"
  by (cases d) (auto simp: lit_def split: if_splits)


lemma key_iff:
  assumes absorb: "\<And>d r. list_all is_digit d \<Longrightarrow> m (d @ r) \<noteq> None \<Longrightarrow> m r \<noteq> None"
  shows "(dot_star (lit k (lit CHR ''_'' (digits m))) s \<noteq> None) = key_then k (\<lambda>t. m t \<noteq> None) s"
proof -
  have dg: "(digits m x \<noteq> None) = (\<exists>d r. x = d @ r \<and> digit_run d \<and> m r \<noteq> None)" for x
    by (rule digits_iff) (erule (1) absorb)
  show ?thesis
  proof
    assume "dot_star (lit k (lit CHR ''_'' (digits m))) s \<noteq> None"
    then obtain p r where 1: "s = p @ r" "newline \<notin> set p"
        "lit k (lit CHR ''_'' (digits m)) r \<noteq> None"
      using dot_star_iff[of "lit k (lit CHR ''_'' (digits m))" s] by blast
    from 1(3) obtain r1 where 2: "r = k # r1" "lit CHR ''_'' (digits m) r1 \<noteq> None"
      using lit_iff[of k "lit CHR ''_'' (digits m)" r] by blast
    from 2(2) obtain r2 where 3: "r1 = CHR ''_'' # r2" "digits m r2 \<noteq> None"
      using lit_iff[of "CHR ''_''" "digits m" r1] by blast
    from 3(2) obtain d t where 4: "r2 = d @ t" "digit_run d" "m t \<noteq> None"
      using dg[of r2] by blast
    have "s = p @ [k, CHR ''_''] @ d @ t \<and> newline \<notin> set p \<and> digit_run d \<and> m t \<noteq> None"
      using 1 2 3 4 by simp
    then show "key_then k (\<lambda>t. m t \<noteq> None) s"
      unfolding key_then_def by (intro exI)
  next
    assume "key_then k (\<lambda>t. m t \<noteq> None) s"
    then obtain p d t where 1: "s = p @ [k, CHR ''_''] @ d @ t" "newline \<notin> set p"
        "digit_run d" "m t \<noteq> None"
      unfolding key_then_def by blast
    have "d @ t = d @ t \<and> digit_run d \<and> m t \<noteq> None" using 1 by simp
    then have "digits m (d @ t) \<noteq> None"
      using dg[of "d @ t"] by blast
    then have "lit CHR ''_'' (digits m) (CHR ''_'' # d @ t) \<noteq> None"
      by (simp add: lit_def)
    then have "lit k (lit CHR ''_'' (digits m)) (k # CHR ''_'' # d @ t) \<noteq> None"
      by (simp add: lit_def)
    moreover have "s = p @ (k # CHR ''_'' # d @ t)" using 1(1) by simp
    ultimately have "\<exists>p r. s = p @ r \<and> newline \<notin> set p
        \<and> lit k (lit CHR ''_'' (digits m)) r \<noteq> None"
      using 1(2) by blast
    then show "dot_star (lit k (lit CHR ''_'' (digits m))) s \<noteq> None"
      using dot_star_iff[of "lit k (lit CHR ''_'' (digits m))" s] by blast
  qed
qed

lemma key_iff_rest:
  assumes "\<And>d r. list_all is_digit d \<Longrightarrow> m (d @ r) \<noteq> None \<Longrightarrow> m r \<noteq> None"
    and rest: "\<And>t. (m t \<noteq> None) = rest t"
  shows "(dot_star (lit k (lit CHR ''_'' (digits m))) s \<noteq> None) = key_then k rest s"
proof -
  have "(dot_star (lit k (lit CHR ''_'' (digits m))) s \<noteq> None) = key_then k (\<lambda>t. m t \<noteq> None) s"
    by (rule key_iff) (erule (1) assms(1))
  then show ?thesis by (simp only: rest)
qed

lemma pattern_A_iff: "(pattern_A s \<noteq> None) = matches_A s"
proof -
  have nd: "\<not> is_digit CHR ''x''" "\<not> is_digit CHR ''y''" "\<not> is_digit CHR ''z''"
    by (simp_all add: is_digit_def)
  let ?M3 = "dot_star accept"
  let ?M2 = "dot_star (lit CHR ''z'' (lit CHR ''_'' (digits ?M3)))"
  let ?M1 = "dot_star (lit CHR ''y'' (lit CHR ''_'' (digits ?M2)))"
  have z: "(?M2 t \<noteq> None) = key_then CHR ''z'' (\<lambda>t. True) t" for t
  proof (rule key_iff_rest)
    show "?M3 r \<noteq> None" for r by (rule dot_star_accept)
    show "(?M3 t \<noteq> None) = True" for t using dot_star_accept[of t] by blast
  qed
  have y: "(?M1 t \<noteq> None) = key_then CHR ''y'' (key_then CHR ''z'' (\<lambda>t. True)) t" for t
  proof (rule key_iff_rest)
    show "list_all is_digit d \<Longrightarrow> ?M2 (d @ r) \<noteq> None \<Longrightarrow> ?M2 r \<noteq> None" for d r
      by (rule absorb_dot_lit[OF nd(3)])
    show "(?M2 t \<noteq> None) = key_then CHR ''z'' (\<lambda>t. True) t" for t by (rule z)
  qed
  show ?thesis
    unfolding pattern_A_def matches_A_def
  proof (rule key_iff_rest)
    show "list_all is_digit d \<Longrightarrow> ?M1 (d @ r) \<noteq> None \<Longrightarrow> ?M1 r \<noteq> None" for d r
      by (rule absorb_dot_lit[OF nd(2)])
    show "(?M1 t \<noteq> None) = key_then CHR ''y'' (key_then CHR ''z'' (\<lambda>t. True)) t" for t
      by (rule y)
  qed
qed

lemma num_iff_rest:
  assumes "\<And>d r. list_all is_digit d \<Longrightarrow> m (d @ r) \<noteq> None \<Longrightarrow> m r \<noteq> None"
    and rest: "\<And>t. (m t \<noteq> None) = rest t"
  shows "(digits m s \<noteq> None) = num_then rest s"
proof -
  have "(digits m s \<noteq> None) = (\<exists>d r. s = d @ r \<and> digit_run d \<and> m r \<noteq> None)"
    by (rule digits_iff) (erule (1) assms(1))
  then show ?thesis unfolding num_then_def by (simp only: rest)
qed

lemma lit_iff_rest:
  assumes "\<And>t. (m t \<noteq> None) = rest t"
  shows "(lit k m s \<noteq> None) = (\<exists>t. s = k # t \<and> rest t)"
  unfolding lit_iff using assms by blast

lemma pattern_B_iff: "(pattern_B s \<noteq> None) = matches_B s"
proof -
  have nd: "\<not> is_digit CHR ''_''" by (simp add: is_digit_def)
  have 3: "(digits accept t \<noteq> None) = num_then (\<lambda>t. True) t" for t
  proof (rule num_iff_rest)
    show "accept r \<noteq> None" for r by (simp add: accept_def)
    show "(accept t \<noteq> None) = True" for t by (simp add: accept_def)
  qed
  have 2: "(digits (lit CHR ''_'' (digits accept)) t \<noteq> None)
      = num_then (\<lambda>s. \<exists>t. s = CHR ''_'' # t \<and> num_then (\<lambda>t. True) t) t" for t
  proof (rule num_iff_rest)
    show "list_all is_digit d \<Longrightarrow> lit CHR ''_'' (digits accept) (d @ r) \<noteq> None
      \<Longrightarrow> lit CHR ''_'' (digits accept) r \<noteq> None" for d r
      by (rule absorb_lit[OF nd])
    show "(lit CHR ''_'' (digits accept) t \<noteq> None)
      = (\<exists>ta. t = CHR ''_'' # ta \<and> num_then (\<lambda>t. True) ta)" for t
      by (rule lit_iff_rest) (rule 3)
  qed
  show ?thesis
    unfolding pattern_B_def matches_B_def
  proof (rule num_iff_rest)
    show "list_all is_digit d \<Longrightarrow> lit CHR ''_'' (digits (lit CHR ''_'' (digits accept))) (d @ r) \<noteq> None
      \<Longrightarrow> lit CHR ''_'' (digits (lit CHR ''_'' (digits accept))) r \<noteq> None" for d r
      by (rule absorb_lit[OF nd])
    show "(lit CHR ''_'' (digits (lit CHR ''_'' (digits accept))) t \<noteq> None)
      = (\<exists>ta. t = CHR ''_'' # ta \<and>
            num_then (\<lambda>s. \<exists>t. s = CHR ''_'' # t \<and> num_then (\<lambda>t. True) t) ta)" for t
      by (rule lit_iff_rest) (rule 2)
  qed
qed



text \<open>
  C7.  \<^verbatim>\<open>parse_file_name\<close> maps \<^verbatim>\<open>img_x_005_y_010_z_020.tif\<close> to 5, 10, 20 through the
  first expression and \<^verbatim>\<open>005_010_020_extra.tif\<close> to 5, 10, 20 through the second one
  (the first does not match it); and for every name whose base name matches neither
  expression it raises ValueError with the message \<^verbatim>\<open>Invalid name\<close> followed by that
  base name.
\<close>

theorem parse_file_name_patterns:
  "pattern_A ''img_x_005_y_010_z_020.tif'' = Some (''005'', ''010'', ''020'', ()) \<and>
   parse_file_name ''img_x_005_y_010_z_020.tif'' = Inr [5, 10, 20] \<and>
   pattern_A ''005_010_020_extra.tif'' = None \<and>
   pattern_B ''005_010_020_extra.tif'' = Some (''005'', ''010'', ''020'', ()) \<and>
   parse_file_name ''005_010_020_extra.tif'' = Inr [5, 10, 20] \<and>
   (\<forall>name. \<not> matches_A (basename name) \<and> \<not> matches_B (basename name) \<longrightarrow>
      parse_file_name name = Inl (Exn ValueError [''Invalid name '' @ basename name]))"
proof -
  have a: "pattern_A ''img_x_005_y_010_z_020.tif'' = Some (''005'', ''010'', ''020'', ())"
    by code_simp
  have b: "parse_file_name ''img_x_005_y_010_z_020.tif'' = Inr [5, 10, 20]"
    by code_simp
  have c: "pattern_A ''005_010_020_extra.tif'' = None"
    by code_simp
  have d: "pattern_B ''005_010_020_extra.tif'' = Some (''005'', ''010'', ''020'', ())"
    by code_simp
  have e: "parse_file_name ''005_010_020_extra.tif'' = Inr [5, 10, 20]"
    by code_simp
  have f: "parse_file_name name = Inl (Exn ValueError [''Invalid name '' @ basename name])"
    if "\<not> matches_A (basename name) \<and> \<not> matches_B (basename name)" for name
  proof -
    have "pattern_A (basename name) = None" "pattern_B (basename name) = None"
      using that pattern_A_iff[of "basename name"] pattern_B_iff[of "basename name"] by blast+
    then show ?thesis by (simp add: parse_file_name_def)
  qed
  show ?thesis using a b c d e f by blast
qed

theorem parse_file_name_patterns_witness:
  "\<not> matches_A (basename ''tiles/not_a_tile.tif'') \<and>
   \<not> matches_B (basename ''tiles/not_a_tile.tif'') \<and>
   parse_file_name ''tiles/not_a_tile.tif'' = Inl (Exn ValueError [''Invalid name not_a_tile.tif''])"
proof -
  have a: "\<not> matches_A (basename ''tiles/not_a_tile.tif'')"
    unfolding pattern_A_iff[symmetric] by code_simp
  have b: "\<not> matches_B (basename ''tiles/not_a_tile.tif'')"
    unfolding pattern_B_iff[symmetric] by code_simp
  have c: "basename ''tiles/not_a_tile.tif'' = ''not_a_tile.tif''"
    by code_simp
  have "parse_file_name ''tiles/not_a_tile.tif''
      = Inl (Exn ValueError [''Invalid name '' @ basename ''tiles/not_a_tile.tif''])"
    using parse_file_name_patterns a b by blast
  then show ?thesis using a b c by simp
qed

section \<open>Properties of \<^verbatim>\<open>load_dir\<close>\<close>

lemma parse_file_name_cases:
  "parse_file_name name = Inl (Exn ValueError [''Invalid name '' @ basename name]) \<or>
   (\<exists>x y z. parse_file_name name = Inr [x, y, z])"
  by (auto simp: parse_file_name_def Let_def split: option.splits)

lemma parse_and_append_Inr:
  assumes "parse_and_append InputFile name (fl, lg) = Inr (fl', lg')"
  shows "fl' = fl @ contribution InputFile name"
  using assms parse_file_name_cases[of name]
  by (auto simp: parse_and_append_def contribution_def outcome_def seven_def log_error_def
      split: sum.splits if_splits exn.splits list.splits prod.splits)

lemma parse_and_append_Inl:
  "parse_and_append InputFile name st = Inl e \<Longrightarrow> \<not> caught e"
  by (auto simp: parse_and_append_def log_error_def caught_def
      split: sum.splits if_splits exn.splits list.splits prod.splits)

lemma files_loop_Inr:
  "files_loop InputFile root fs st = Inr st' \<Longrightarrow>
   fst st' = fst st @ concat (map (\<lambda>f. contribution InputFile (path_join root f)) fs)"
proof (induction fs arbitrary: st)
  case Nil
  then show ?case by simp
next
  case (Cons f fs)
  show ?case
  proof (cases "parse_and_append InputFile (path_join root f) st")
    case (Inl e)
    then have "\<not> caught e" by (rule parse_and_append_Inl)
    then show ?thesis using Cons.prems Inl by simp
  next
    case (Inr st1)
    then have 1: "fst st1 = fst st @ contribution InputFile (path_join root f)"
      using parse_and_append_Inr[of InputFile "path_join root f" "fst st" "snd st" "fst st1" "snd st1"]
      by simp
    have "files_loop InputFile root fs st1 = Inr st'" using Cons.prems Inr by simp
    then show ?thesis using Cons.IH[of st1] 1 by simp
  qed
qed

lemma walk_loop_Inr:
  "walk_loop InputFile w st = Inr st' \<Longrightarrow>
   fst st' = fst st @ concat (map (contribution InputFile) (candidates w))"
proof (induction w arbitrary: st)
  case Nil
  then show ?case by (simp add: candidates_def)
next
  case (Cons entry w)
  obtain root dirs files where entry: "entry = (root, dirs, files)" by (cases entry) auto
  have cand: "candidates (entry # w) =
      (if basename root \<noteq> [] then [root] else map (path_join root) files) @ candidates w"
    by (simp add: candidates_def entry)
  show ?case
  proof (cases "basename root \<noteq> []")
    case True
    show ?thesis
    proof (cases "parse_and_append InputFile root st")
      case (Inl e)
      then have "\<not> caught e" by (rule parse_and_append_Inl)
      then show ?thesis using Cons.prems Inl True entry by simp
    next
      case (Inr st1)
      then have 1: "fst st1 = fst st @ contribution InputFile root"
        using parse_and_append_Inr[of InputFile root "fst st" "snd st" "fst st1" "snd st1"]
        by simp
      have "walk_loop InputFile w st1 = Inr st'" using Cons.prems Inr True entry by simp
      then show ?thesis using Cons.IH[of st1] 1 True cand by simp
    qed
  next
    case False
    show ?thesis
    proof (cases "files_loop InputFile root files st")
      case (Inl e)
      then show ?thesis using Cons.prems False entry by simp
    next
      case (Inr st1)
      then have 1: "fst st1 = fst st @ concat (map (\<lambda>f. contribution InputFile (path_join root f)) files)"
        by (rule files_loop_Inr)
      have "walk_loop InputFile w st1 = Inr st'" using Cons.prems Inr False entry by simp
      then show ?thesis using Cons.IH[of st1] 1 False cand by (simp add: comp_def)
    qed
  qed
qed


lemma failure_log_Cons:
  "failure_log InputFile (name # names) = failure_log InputFile [name] @ failure_log InputFile names"
  by (simp add: failure_log_def)

lemma failure_log_append:
  "failure_log InputFile (xs @ ys) = failure_log InputFile xs @ failure_log InputFile ys"
  by (simp add: failure_log_def)

lemma parse_and_append_total:
  assumes "all_loggable InputFile [name]"
  shows "parse_and_append InputFile name (fl, lg) =
     Inr (fl @ contribution InputFile name, lg @ failure_log InputFile [name])"
  using assms parse_file_name_cases[of name]
  by (auto simp: parse_and_append_def contribution_def outcome_def seven_def log_error_def
      all_loggable_def loggable_def failure_log_def caught_def
      split: sum.splits if_splits exn.splits list.splits prod.splits)

lemma files_loop_total:
  "all_loggable InputFile (map (path_join root) fs) \<Longrightarrow>
   files_loop InputFile root fs (fl, lg) =
     Inr (fl @ concat (map (contribution InputFile) (map (path_join root) fs)),
          lg @ failure_log InputFile (map (path_join root) fs))"
proof (induction fs arbitrary: fl lg)
  case Nil
  then show ?case by (simp add: failure_log_def)
next
  case (Cons f fs)
  have 1: "all_loggable InputFile [path_join root f]"
    and 2: "all_loggable InputFile (map (path_join root) fs)"
    using Cons.prems by (simp_all add: all_loggable_def)
  show ?case
    using parse_and_append_total[OF 1, of fl lg] Cons.IH[OF 2]
      failure_log_Cons[of InputFile "path_join root f" "map (path_join root) fs"]
    by simp
qed

lemma walk_loop_total:
  "all_loggable InputFile (candidates w) \<Longrightarrow>
   walk_loop InputFile w (fl, lg) =
     Inr (fl @ concat (map (contribution InputFile) (candidates w)),
          lg @ failure_log InputFile (candidates w))"
proof (induction w arbitrary: fl lg)
  case Nil
  then show ?case by (simp add: candidates_def failure_log_def)
next
  case (Cons entry w)
  obtain root dirs files where entry: "entry = (root, dirs, files)" by (cases entry) auto
  have cand: "candidates ((root, dirs, files) # w) =
      (if basename root \<noteq> [] then [root] else map (path_join root) files) @ candidates w"
    by (simp add: candidates_def)
  have 2: "all_loggable InputFile (candidates w)"
    using Cons.prems by (simp add: all_loggable_def cand entry)
  show ?case
  proof (cases "basename root \<noteq> []")
    case True
    then have 1: "all_loggable InputFile [root]"
      using Cons.prems by (simp add: all_loggable_def cand entry)
    show ?thesis
      using parse_and_append_total[OF 1, of fl lg] Cons.IH[OF 2] True
        failure_log_Cons[of InputFile root "candidates w"]
      by (simp add: entry cand)
  next
    case False
    then have 1: "all_loggable InputFile (map (path_join root) files)"
      using Cons.prems by (simp add: all_loggable_def cand entry)
    show ?thesis
      using files_loop_total[OF 1, of fl lg] Cons.IH[OF 2] False
      by (simp add: entry cand failure_log_append)
  qed
qed

lemma contribution_concat:
  "concat (map (contribution InputFile) names) = concat (map seven (survivors InputFile names))"
  by (induction names) (auto simp: contribution_def survivors_def split: sum.splits)

lemma every7_step:
  "every7 ([a0, a1, a2, a3, a4, a5, a6] @ rest) = a0 # every7 rest"
  by simp

lemma every7_seven:
  assumes "k < 7"
  shows "every7 (drop k (concat (map seven rs))) = map (\<lambda>r. seven r ! k) rs"
proof -
  have k: "k = 0 \<or> k = 1 \<or> k = 2 \<or> k = 3 \<or> k = 4 \<or> k = 5 \<or> k = 6"
    using assms by arith
  show ?thesis
  proof (induction rs)
    case Nil
    then show ?case by simp
  next
    case (Cons r rs)
    obtain x y z n ys xs f where r: "r = (x, y, z, n, ys, xs, f)" by (cases r) auto
    show ?case using k Cons.IH
      by (elim disjE) (simp_all add: r seven_def)
  qed
qed


lemma make_row_seven: "make_row (seven r) = Some r"
  by (cases r) (simp add: seven_def)

lemma length_seven: "length (seven r) = 7"
  by (cases r) (simp add: seven_def)

lemma DataFrame_seven: "DataFrame (concat (map seven rs)) = Inr (zip [0..<length rs] rs)"
proof -
  let ?fl = "concat (map seven rs)"
  let ?cols = "map (\<lambda>k. every7 (drop k ?fl)) [0..<7]"
  have cols: "?cols = map (\<lambda>k. map (\<lambda>r. seven r ! k) rs) [0..<7]"
    by (rule map_cong) (simp_all add: every7_seven)
  have len: "\<not> list_ex (\<lambda>c. length c \<noteq> length (hd ?cols)) ?cols"
    unfolding cols by (simp add: list_ex_iff upt_rec[of 0 7])
  have hd: "length (hd ?cols) = length rs"
    unfolding cols by (simp add: upt_rec[of 0 7])
  have row: "make_row (map (\<lambda>c. c ! i) ?cols) = Some (rs ! i)" if "i < length rs" for i
  proof -
    have "map (\<lambda>c. c ! i) ?cols = map (\<lambda>k. seven (rs ! i) ! k) [0..<7]"
      unfolding cols using that by simp
    also have "\<dots> = seven (rs ! i)"
      using map_nth[of "seven (rs ! i)"] by (simp add: length_seven)
    finally show ?thesis by (simp add: make_row_seven)
  qed
  have rows: "map (\<lambda>i. make_row (map (\<lambda>c. c ! i) ?cols)) [0..<length (hd ?cols)] = map Some rs"
    unfolding hd by (rule nth_equalityI) (simp_all add: row del: map_map)
  show ?thesis
    unfolding DataFrame_def Let_def using len
    by (simp only: rows if_False) (simp add: list_ex_iff comp_def)
qed


lemma load_dir_total:
  assumes "all_loggable InputFile (candidates (walk d))"
  shows "load_dir InputFile walk d =
     Inr (table_of (survivors InputFile (candidates (walk d))),
          failure_log InputFile (candidates (walk d)))"
  using walk_loop_total[OF assms, of "[]" "[]"]
  by (simp add: load_dir_def contribution_concat DataFrame_seven table_of_def)




lemma ex_outcomes:
  "outcome example_reader ''tiles/0_0_0'' = Inr (0, 0, 0, 10, 100, 100, ''tiles/0_0_0'')"
  "outcome example_reader ''tiles/junk'' = Inl (Exn ValueError [''Invalid name junk''])"
  "outcome example_reader ''tiles/1_1_1.raw'' = Inl (Exn RuntimeError [''cannot open''])"
  "outcome example_reader ''tiles/0_90_0'' = Inr (0, 90, 0, 10, 100, 100, ''tiles/0_90_0'')"
  by code_simp+

lemma ex_candidates:
  "candidates (example_walk ''tiles/'') = [''tiles/0_0_0'', ''tiles/junk'', ''tiles/1_1_1.raw'', ''tiles/0_90_0'']"
  by code_simp



lemma parse_and_append_seven:
  assumes "parse_and_append InputFile name (fl, lg) = Inr (fl', lg')"
  shows "fl' = fl \<or>
     (\<exists>x y z n ys xs. parse_file_name name = Inr [x, y, z] \<and> InputFile name = Inr (n, ys, xs) \<and>
        fl' = fl @ [IntV x, IntV y, IntV z, IntV n, IntV ys, IntV xs, StrV name])"
  using assms parse_file_name_cases[of name]
  by (auto simp: parse_and_append_def log_error_def
      split: sum.splits if_splits exn.splits list.splits prod.splits)

lemma parse_and_append_read_fails:
  assumes "parse_file_name name = Inr flds" "InputFile name = Inl e"
  shows "(loggable e \<longrightarrow>
            parse_and_append InputFile name (fl, lg) = Inr (fl, lg @ [hd (exn_args e)])) \<and>
         (\<forall>fl' lg'. parse_and_append InputFile name (fl, lg) = Inr (fl', lg') \<longrightarrow> fl' = fl)"
  using assms
  by (cases e) (auto simp: parse_and_append_def log_error_def loggable_def caught_def
      split: sum.splits if_splits list.splits prod.splits)

lemma length_concat_seven: "length (concat (map seven rs)) = 7 * length rs"
  by (induction rs) (simp_all add: length_seven)

text \<open>
  C10.  A candidate whose name parses and whose metadata read fails leaves \<^verbatim>\<open>flist\<close> as
  it was (the call logs the message, or raises).  Every call of \<^verbatim>\<open>parse_and_append\<close>
  that returns has appended nothing or the seven elements X, Y, Z, nfrms, ysize, xsize,
  filename of its candidate.  So after a traversal the length of \<^verbatim>\<open>flist\<close> is a multiple
  of seven, the slice \<^verbatim>\<open>flist[k::7]\<close> is the column of the \<open>k\<close>-th fields of the
  surviving records, and \<^verbatim>\<open>pd.DataFrame\<close> rebuilds exactly these records.
\<close>

theorem flist_stride_seven:
  "(parse_file_name name = Inr flds \<and> InputFile name = Inl e \<longrightarrow>
      (loggable e \<longrightarrow>
         parse_and_append InputFile name (fl, lg) = Inr (fl, lg @ [hd (exn_args e)])) \<and>
      (\<forall>fl' lg'. parse_and_append InputFile name (fl, lg) = Inr (fl', lg') \<longrightarrow> fl' = fl)) \<and>
   (\<forall>fl' lg'. parse_and_append InputFile name (fl, lg) = Inr (fl', lg') \<longrightarrow>
      fl' = fl \<or>
      (\<exists>x y z n ys xs. parse_file_name name = Inr [x, y, z] \<and> InputFile name = Inr (n, ys, xs) \<and>
         fl' = fl @ [IntV x, IntV y, IntV z, IntV n, IntV ys, IntV xs, StrV name])) \<and>
   (walk_loop InputFile w ([], []) = Inr (flist, log) \<longrightarrow>
      length flist mod 7 = 0 \<and>
      flist = concat (map seven (survivors InputFile (candidates w))) \<and>
      (\<forall>k<7. every7 (drop k flist) = map (\<lambda>r. seven r ! k) (survivors InputFile (candidates w))) \<and>
      DataFrame flist = Inr (zip [0..<length (survivors InputFile (candidates w))]
                                 (survivors InputFile (candidates w))))"
proof (intro conjI impI allI)
  assume "parse_file_name name = Inr flds \<and> InputFile name = Inl e"
  then have *: "parse_file_name name = Inr flds" "InputFile name = Inl e" by simp_all
  { assume "loggable e"
    then show "parse_and_append InputFile name (fl, lg) = Inr (fl, lg @ [hd (exn_args e)])"
      using parse_and_append_read_fails[of name flds InputFile e fl lg] * by blast }
  { fix fl' lg' assume "parse_and_append InputFile name (fl, lg) = Inr (fl', lg')"
    then show "fl' = fl"
      using parse_and_append_read_fails[of name flds InputFile e fl lg] * by blast }
next
  fix fl' lg' assume "parse_and_append InputFile name (fl, lg) = Inr (fl', lg')"
  then show "fl' = fl \<or>
      (\<exists>x y z n ys xs. parse_file_name name = Inr [x, y, z] \<and> InputFile name = Inr (n, ys, xs) \<and>
         fl' = fl @ [IntV x, IntV y, IntV z, IntV n, IntV ys, IntV xs, StrV name])"
    by (rule parse_and_append_seven)
next
  assume w: "walk_loop InputFile w ([], []) = Inr (flist, log)"
  have fl: "flist = concat (map seven (survivors InputFile (candidates w)))"
    using walk_loop_Inr[OF w] by (simp add: contribution_concat)
  show "flist = concat (map seven (survivors InputFile (candidates w)))" by (rule fl)
  show "length flist mod 7 = 0" by (simp add: fl length_concat_seven)
  show "DataFrame flist = Inr (zip [0..<length (survivors InputFile (candidates w))]
                                 (survivors InputFile (candidates w)))"
    unfolding fl by (rule DataFrame_seven)
  fix k :: nat assume "k < 7"
  then show "every7 (drop k flist) = map (\<lambda>r. seven r ! k) (survivors InputFile (candidates w))"
    unfolding fl by (rule every7_seven)
qed

lemma ex_parse_ok: "parse_file_name ''tiles/1_1_1.raw'' = Inr [1, 1, 1]"
  by code_simp

lemma ex_walk_loop:
  "walk_loop example_reader (example_walk ''tiles/'') ([], []) =
     Inr ([IntV 0, IntV 0, IntV 0, IntV 10, IntV 100, IntV 100, StrV ''tiles/0_0_0'',
           IntV 0, IntV 90, IntV 0, IntV 10, IntV 100, IntV 100, StrV ''tiles/0_90_0''],
          [''Invalid name junk'', ''cannot open''])"
  using walk_loop_total[of example_reader "example_walk ''tiles/''" "[]" "[]"]
  by (simp add: ex_candidates all_loggable_def contribution_def failure_log_def ex_outcomes
      loggable_def seven_def)

theorem flist_stride_seven_witness:
  "parse_file_name ''tiles/1_1_1.raw'' = Inr [1, 1, 1] \<and>
   example_reader ''tiles/1_1_1.raw'' = Inl (Exn RuntimeError [''cannot open'']) \<and>
   loggable (Exn RuntimeError [''cannot open'']) \<and>
   parse_and_append example_reader ''tiles/1_1_1.raw'' ([IntV 7], []) = Inr ([IntV 7], [''cannot open'']) \<and>
   walk_loop example_reader (example_walk ''tiles/'') ([], []) =
     Inr ([IntV 0, IntV 0, IntV 0, IntV 10, IntV 100, IntV 100, StrV ''tiles/0_0_0'',
           IntV 0, IntV 90, IntV 0, IntV 10, IntV 100, IntV 100, StrV ''tiles/0_90_0''],
          [''Invalid name junk'', ''cannot open'']) \<and>
   DataFrame [IntV 0, IntV 0, IntV 0, IntV 10, IntV 100, IntV 100, StrV ''tiles/0_0_0'',
              IntV 0, IntV 90, IntV 0, IntV 10, IntV 100, IntV 100, StrV ''tiles/0_90_0''] =
     Inr [(0, (0, 0, 0, 10, 100, 100, ''tiles/0_0_0'')),
          (1, (0, 90, 0, 10, 100, 100, ''tiles/0_90_0''))]"
proof -
  have a: "example_reader ''tiles/1_1_1.raw'' = Inl (Exn RuntimeError [''cannot open''])"
    by (simp add: example_reader_def)
  have b: "loggable (Exn RuntimeError [''cannot open''])"
    by (simp add: loggable_def)
  note inst = flist_stride_seven[of "''tiles/1_1_1.raw''" "[1, 1, 1]" example_reader
      "Exn RuntimeError [''cannot open'']" "[IntV 7]" "[]" "example_walk ''tiles/''" _ _]
  have c: "parse_and_append example_reader ''tiles/1_1_1.raw'' ([IntV 7], [])
      = Inr ([IntV 7], [''cannot open''])"
    using inst ex_parse_ok a b by simp
  have d: "DataFrame [IntV 0, IntV 0, IntV 0, IntV 10, IntV 100, IntV 100, StrV ''tiles/0_0_0'',
              IntV 0, IntV 90, IntV 0, IntV 10, IntV 100, IntV 100, StrV ''tiles/0_90_0''] =
     Inr (zip [0..<length (survivors example_reader (candidates (example_walk ''tiles/'')))]
              (survivors example_reader (candidates (example_walk ''tiles/''))))"
    using inst ex_walk_loop by blast
  have e: "survivors example_reader (candidates (example_walk ''tiles/'')) =
      [(0, 0, 0, 10, 100, 100, ''tiles/0_0_0''), (0, 90, 0, 10, 100, 100, ''tiles/0_90_0'')]"
    by (simp add: ex_candidates survivors_def ex_outcomes)
  show ?thesis using ex_parse_ok a b c d ex_walk_loop unfolding e by (simp add: upt_rec)
qed

lemma data_outcome: "outcome plain_reader ''data'' = Inl (Exn ValueError [''Invalid name data''])"
  by code_simp

text \<open>
  C3 (the code departs from the claim).  The directory \<^verbatim>\<open>data\<close> holds the file
  \<^verbatim>\<open>x_1_y_2_z_3.tif\<close>, whose name parses and whose metadata can be read.  The base name
  \<^verbatim>\<open>data\<close> is not empty and does not parse; \<^verbatim>\<open>parse_and_append\<close> logs this and returns,
  \<^verbatim>\<open>continue\<close> follows, and the file is never tried: the table is empty.
\<close>

theorem load_dir_never_tries_files:
  "outcome plain_reader (path_join ''data'' ''x_1_y_2_z_3.tif'') =
     Inr (1, 2, 3, 10, 100, 100, ''data/x_1_y_2_z_3.tif'') \<and>
   load_dir plain_reader one_file_walk ''data'' =
     Inr (\<lparr>rows = [], columns_extra = (\<lambda>c. None)\<rparr>, [''Invalid name data''])"
proof -
  have a: "outcome plain_reader (path_join ''data'' ''x_1_y_2_z_3.tif'') =
     Inr (1, 2, 3, 10, 100, 100, ''data/x_1_y_2_z_3.tif'')"
    by code_simp
  have c: "candidates (one_file_walk ''data'') = [''data'']"
    by code_simp
  have l: "all_loggable plain_reader (candidates (one_file_walk ''data''))"
    by (simp add: c all_loggable_def data_outcome loggable_def)
  have "load_dir plain_reader one_file_walk ''data'' =
     Inr (\<lparr>rows = [], columns_extra = (\<lambda>c. None)\<rparr>, [''Invalid name data''])"
    using load_dir_total[of plain_reader one_file_walk "''data''"] l
    by (simp add: c survivors_def failure_log_def data_outcome table_of_def)
  then show ?thesis using a by simp
qed

section \<open>Properties of \<^verbatim>\<open>slices\<close>\<close>

lemma graph_nodes_fold:
  "distinct ns \<Longrightarrow>
   distinct (fold (\<lambda>(i, row) ns. if i \<in> set ns then ns else ns @ [i]) rs ns) \<and>
   set (fold (\<lambda>(i, row) ns. if i \<in> set ns then ns else ns @ [i]) rs ns) = set ns \<union> fst ` set rs"
  by (induction rs arbitrary: ns) (auto split: prod.splits)

lemma distinct_graph_nodes: "distinct (graph_nodes rs)"
  using graph_nodes_fold[of "[]" rs] by (simp add: graph_nodes_def)

lemma set_graph_nodes: "set (graph_nodes rs) = fst ` set rs"
  using graph_nodes_fold[of "[]" rs] by (simp add: graph_nodes_def)

lemma graph_nodes_distinct_labels:
  "distinct (map fst rs) \<Longrightarrow> graph_nodes rs = map fst rs"
proof -
  have "distinct (ns @ map fst rs) \<Longrightarrow>
      fold (\<lambda>(i, row) ns. if i \<in> set ns then ns else ns @ [i]) rs ns = ns @ map fst rs" for ns
    by (induction rs arbitrary: ns) (auto split: prod.splits)
  from this[of "[]"] show "distinct (map fst rs) \<Longrightarrow> graph_nodes rs = map fst rs"
    by (simp add: graph_nodes_def)
qed

lemma sym_sym_edges: "sym (sym_edges es)"
  by (auto simp: sym_edges_def sym_def)

lemma connected_alt: "connected es u v = (u = v \<or> (u, v) \<in> (sym_edges es)\<^sup>+)"
  by (simp add: connected_def sym_edges_def)

lemma connected_refl: "connected es u u"
  by (simp add: connected_alt)

lemma connected_sym: "connected es u v \<Longrightarrow> connected es v u"
  using sym_trancl[OF sym_sym_edges[of es]] by (auto simp: connected_alt sym_def)

lemma connected_trans: "connected es u v \<Longrightarrow> connected es v w \<Longrightarrow> connected es u w"
  by (auto simp: connected_alt intro: trancl_trans)

lemma connected_edge: "(a, b) \<in> set es \<Longrightarrow> connected es a b"
  by (auto simp: connected_alt sym_edges_def)

lemma connected_path:
  assumes "set (zip ls (tl ls)) \<subseteq> set es"
  shows "i < length ls \<Longrightarrow> connected es (ls ! 0) (ls ! i)"
proof (induction i)
  case 0
  show ?case by (rule connected_refl)
next
  case (Suc i)
  have "(ls ! i, tl ls ! i) \<in> set (zip ls (tl ls))"
    using Suc.prems by (auto simp: set_zip intro!: exI[of _ i])
  moreover have "tl ls ! i = ls ! Suc i" using Suc.prems by (simp add: nth_tl)
  ultimately have "connected es (ls ! i) (ls ! Suc i)"
    using assms connected_edge by auto
  moreover have "connected es (ls ! 0) (ls ! i)" using Suc by simp
  ultimately show ?case by (rule connected_trans[rotated])
qed

lemma connected_list:
  assumes "set (zip ls (tl ls)) \<subseteq> set es" "u \<in> set ls" "v \<in> set ls"
  shows "connected es u v"
proof -
  obtain i j where "i < length ls" "u = ls ! i" "j < length ls" "v = ls ! j"
    using assms(2,3) by (auto simp: in_set_conv_nth)
  then have "connected es (ls ! 0) u" "connected es (ls ! 0) v"
    using connected_path[OF assms(1)] by auto
  then show ?thesis using connected_sym connected_trans by blast
qed

lemma components_seen:
  "set vs \<subseteq> set seen \<Longrightarrow> components es nodes seen vs = []"
  by (induction vs) auto

lemma components_single:
  assumes "nodes \<noteq> []" "\<And>u v. u \<in> set nodes \<Longrightarrow> v \<in> set nodes \<Longrightarrow> connected es u v"
  shows "components es nodes [] nodes = [nodes]"
proof -
  obtain v vs where n: "nodes = v # vs" using assms(1) by (cases nodes) auto
  have f: "filter (connected es v) nodes = nodes"
    using assms(2) n by (simp add: filter_id_conv)
  have "components es nodes [] (v # vs) = nodes # components es nodes nodes vs"
    using f by (simp add: Let_def)
  moreover have "components es nodes nodes vs = []"
    by (rule components_seen) (auto simp: n)
  ultimately show ?thesis using n by simp
qed

lemma view_index_same:
  assumes "\<And>r. r \<in> set rs \<Longrightarrow> Z (snd r) = z \<and> Z_end (snd r) = ze" "(i, row) \<in> set rs"
  shows "view_index rs row = map fst rs"
proof -
  have "filter (\<lambda>(j, u). Z u \<le> Z row \<and> Z_end u \<ge> Z_end row) rs = rs"
    using assms by (fastforce simp: filter_id_conv)
  then show ?thesis by (simp add: view_index_def)
qed

lemma view_index_self: "(i, row) \<in> set rs \<Longrightarrow> i \<in> set (view_index rs row)"
  by (force simp: view_index_def)

lemma row_edges_subset:
  assumes "r \<in> set rs"
  shows "set (row_edges rs (snd r)) \<subseteq> set (graph_edges rs)"
proof -
  obtain i row where r: "r = (i, row)" by (cases r) auto
  have "row_edges rs row \<in> (\<lambda>(i, row). row_edges rs row) ` set rs"
    using assms r by (metis (mono_tags, lifting) case_prod_conv image_eqI)
  then show ?thesis by (auto simp: graph_edges_def r)
qed

lemma slices_same_range:
  assumes "rows df \<noteq> []" "\<And>r. r \<in> set (rows df) \<Longrightarrow> Z (snd r) = z \<and> Z_end (snd r) = ze"
  shows "slices df = [graph_nodes (rows df)]"
proof -
  let ?rs = "rows df" and ?ls = "map fst (rows df)"
  obtain r0 where r0: "r0 \<in> set ?rs" using assms(1) by (cases ?rs) auto
  then have "row_edges ?rs (snd r0) = zip ?ls (tl ?ls) @ [(hd ?ls, last ?ls)]"
    using view_index_same[of "rows df" z ze "fst r0" "snd r0"] assms(2)
    by (simp add: row_edges_def Let_def)
  then have "set (zip ?ls (tl ?ls)) \<subseteq> set (row_edges ?rs (snd r0))" by auto
  also have "\<dots> \<subseteq> set (graph_edges ?rs)"
    using r0 by (rule row_edges_subset)
  finally have path: "set (zip ?ls (tl ?ls)) \<subseteq> set (graph_edges ?rs)" .
  have ne: "graph_nodes ?rs \<noteq> []"
    using set_graph_nodes[of ?rs] assms(1) by (cases ?rs) auto
  have "components (graph_edges ?rs) (graph_nodes ?rs) [] (graph_nodes ?rs) = [graph_nodes ?rs]"
  proof (rule components_single[OF ne])
    fix u v assume "u \<in> set (graph_nodes ?rs)" "v \<in> set (graph_nodes ?rs)"
    then have "u \<in> set ?ls" "v \<in> set ?ls" by (simp_all add: set_graph_nodes)
    then show "connected (graph_edges ?rs) u v" by (rule connected_list[OF path])
  qed
  then show ?thesis by (simp add: slices_def Let_def)
qed

lemma trancl_loops: "(u, v) \<in> r\<^sup>+ \<Longrightarrow> r \<subseteq> Id \<Longrightarrow> u = v"
  by (induction rule: trancl.induct) auto

lemma slices_two_disjoint:
  assumes "rows df = [(i, a), (j, b)]" "i \<noteq> j" "Z a < Z_end a" "Z b < Z_end b"
    "Z_end a \<le> Z b \<or> Z_end b \<le> Z a"
  shows "slices df = [[i], [j]]"
proof -
  have va: "view_index (rows df) a = [i]" and vb: "view_index (rows df) b = [j]"
    using assms by (auto simp: view_index_def)
  have es: "graph_edges (rows df) = [(i, i), (j, j)]"
    by (simp add: graph_edges_def assms(1) row_edges_def va[unfolded assms(1)] vb[unfolded assms(1)])
  have ns: "graph_nodes (rows df) = [i, j]"
    using assms(1,2) by (simp add: graph_nodes_def)
  have nc: "\<not> connected [(i, i), (j, j)] i j" "\<not> connected [(i, i), (j, j)] j i"
    using assms(2) trancl_loops[of _ _ "set ([(i, i), (j, j)] @ map (\<lambda>(a, b). (b, a)) [(i, i), (j, j)])"]
    by (auto simp: connected_def)
  show ?thesis
    using assms(2) nc by (simp add: slices_def es ns Let_def connected_refl)
qed

text \<open>
  Two tiles: they form one slice when the depth range of one encloses that of the other,
  and two slices otherwise (also when the ranges overlap without enclosure).
\<close>

lemma slices_two_enclosed:
  assumes "rows df = [(i, a), (j, b)]" "i \<noteq> j"
    "(Z b \<le> Z a \<and> Z_end a \<le> Z_end b) \<or> (Z a \<le> Z b \<and> Z_end b \<le> Z_end a)"
  shows "slices df = [[i, j]]"
proof -
  let ?rs = "rows df"
  have "view_index ?rs a = [i, j] \<or> view_index ?rs b = [i, j]"
    using assms by (auto simp: view_index_def)
  then have "(i, j) \<in> set (row_edges ?rs a) \<or> (i, j) \<in> set (row_edges ?rs b)"
    by (auto simp: row_edges_def Let_def)
  moreover have "set (row_edges ?rs a) \<subseteq> set (graph_edges ?rs)"
    "set (row_edges ?rs b) \<subseteq> set (graph_edges ?rs)"
    using row_edges_subset[of "(i, a)" ?rs] row_edges_subset[of "(j, b)" ?rs] assms(1)
    by simp_all
  ultimately have "(i, j) \<in> set (graph_edges ?rs)" by blast
  then have c: "connected (graph_edges ?rs) i j" by (rule connected_edge)
  have ns: "graph_nodes ?rs = [i, j]"
    using assms(1,2) by (simp add: graph_nodes_def)
  show ?thesis
    using c assms(2) by (simp add: slices_def ns Let_def connected_refl)
qed


lemma slices_two_not_enclosed:
  assumes "rows df = [(i, a), (j, b)]" "i \<noteq> j"
    "\<not> (Z b \<le> Z a \<and> Z_end a \<le> Z_end b)" "\<not> (Z a \<le> Z b \<and> Z_end b \<le> Z_end a)"
  shows "slices df = [[i], [j]]"
proof -
  have va: "view_index (rows df) a = [i]" and vb: "view_index (rows df) b = [j]"
    using assms by (auto simp: view_index_def)
  have es: "graph_edges (rows df) = [(i, i), (j, j)]"
    by (simp add: graph_edges_def assms(1) row_edges_def va[unfolded assms(1)] vb[unfolded assms(1)])
  have ns: "graph_nodes (rows df) = [i, j]"
    using assms(1,2) by (simp add: graph_nodes_def)
  have nc: "\<not> connected [(i, i), (j, j)] i j" "\<not> connected [(i, i), (j, j)] j i"
    using assms(2) trancl_loops[of _ _ "set ([(i, i), (j, j)] @ map (\<lambda>(a, b). (b, a)) [(i, i), (j, j)])"]
    by (auto simp: connected_def)
  show ?thesis
    using assms(2) nc by (simp add: slices_def es ns Let_def connected_refl)
qed

section \<open>Properties of sorting and grouping\<close>

lemma sort_keys_True: "sort_keys keys True = key_of keys"
  by (rule ext) (simp add: sort_keys_def key_of_def)

lemma sort_keys_False: "sort_keys keys False r = map uminus (key_of keys r)"
  by (simp add: sort_keys_def key_of_def comp_def)

lemma neg_le_lex:
  fixes xs ys :: "int list"
  shows "length xs = length ys \<Longrightarrow> (map uminus xs \<le> map uminus ys) = (ys \<le> xs)"
  by (induction xs ys rule: list_induct2) auto

lemma sorted_rev_neg:
  fixes f :: "'a \<Rightarrow> int list"
  assumes "\<And>x y. length (f x) = length (f y)"
  shows "sorted (map (\<lambda>x. map uminus (f x)) xs) \<Longrightarrow> sorted (rev (map f xs))"
proof (induction xs)
  case Nil
  then show ?case by simp
next
  case (Cons a xs)
  have "\<forall>x\<in>set xs. f x \<le> f a"
    using Cons.prems neg_le_lex[OF assms] by auto
  then show ?case using Cons by (auto simp: sorted_append)
qed

lemma sort_values_ascending:
  "sorted (map (key_of keys) (sort_values keys True rs))"
  by (simp add: sort_values_def sort_keys_True)

lemma sort_values_descending:
  "sorted (rev (map (key_of keys) (sort_values keys False rs)))"
proof -
  have "sorted (map (sort_keys keys False) (sort_values keys False rs))"
    by (simp add: sort_values_def)
  then have "sorted (map (\<lambda>r. map uminus (key_of keys r)) (sort_values keys False rs))"
    by (simp add: sort_keys_False[abs_def])
  then show ?thesis
    by (rule sorted_rev_neg[rotated]) (simp add: key_of_def)
qed

lemma sort_values_stable:
  "filter (\<lambda>r. key_of keys r = k) (sort_values keys ascending rs) = filter (\<lambda>r. key_of keys r = k) rs"
proof (cases ascending)
  case True
  then show ?thesis
    using sort_key_stable[of "key_of keys" k rs] by (simp add: sort_values_def sort_keys_True)
next
  case False
  have eq: "(key_of keys r = k) = (sort_keys keys False r = map uminus k)" for r
  proof -
    have "inj (map (uminus :: int \<Rightarrow> int))" by (simp add: inj_on_def)
    then show ?thesis by (auto simp: sort_keys_False dest: injD)
  qed
  show ?thesis
    using sort_key_stable[of "sort_keys keys False" "map uminus k" rs] False
    by (simp add: sort_values_def eq)
qed

lemma set_sort_values: "set (sort_values keys ascending rs) = set rs"
  by (simp add: sort_values_def)

lemma groupby_keys:
  "map fst (groupby c rs) = sorted_list_of_set ((\<lambda>r. col c (snd r)) ` set rs)"
proof -
  have "sorted_list_of_set (set (map (\<lambda>r. col c (snd r)) rs))
      = sort (remdups (map (\<lambda>r. col c (snd r)) rs))"
    by (rule sorted_list_of_set_sort_remdups)
  then show ?thesis by (simp add: groupby_def comp_def)
qed

lemma groupby_member:
  "(k, g) \<in> set (groupby c rs) \<Longrightarrow> g = filter (\<lambda>r. col c (snd r) = k) rs \<and> g \<noteq> []"
  by (force simp: groupby_def filter_empty_conv)

lemma groupby_nonempty: "rs \<noteq> [] \<Longrightarrow> groupby c rs \<noteq> []"
proof -
  assume "rs \<noteq> []"
  then have "set (sort (remdups (map (\<lambda>r. col c (snd r)) rs))) \<noteq> {}" by simp
  then have "sort (remdups (map (\<lambda>r. col c (snd r)) rs)) \<noteq> []" by (simp del: set_sort set_remdups)
  then show ?thesis by (simp add: groupby_def)
qed

lemma groupby_same_set:
  assumes "set rs = set rs'"
  shows "map fst (groupby c rs) = map fst (groupby c rs')"
    and "map (\<lambda>(k, g). set g) (groupby c rs) = map (\<lambda>(k, g). set g) (groupby c rs')"
proof -
  have k: "sort (remdups (map (\<lambda>r. col c (snd r)) rs)) = sort (remdups (map (\<lambda>r. col c (snd r)) rs'))"
    using assms by (intro sorted_distinct_set_unique) auto
  show "map fst (groupby c rs) = map fst (groupby c rs')"
    using k by (simp add: groupby_def comp_def)
  show "map (\<lambda>(k, g). set g) (groupby c rs) = map (\<lambda>(k, g). set g) (groupby c rs')"
    using k assms by (simp add: groupby_def comp_def)
qed


section \<open>Properties of the generators and of \<^verbatim>\<open>full_height\<close>\<close>

lemma length_diff: "length (diff xs) = length xs"
  by (cases xs) (simp_all add: diff_def)



lemma tiles_along_dir_one_send:
  "tiles_along_dir df ss [Some got] =
     (case ss of
        [] \<Rightarrow> ([], None)
      | [s] \<Rightarrow> (None # map Some (slice_groups df s got), None)
      | s # s' # ss' \<Rightarrow>
          (None # map Some (slice_groups df s got) @ [None],
           Some (Exn TypeError [''NoneType object is not subscriptable''])))"
  by (cases ss; cases "tl ss") auto

lemma drive_one_slice:
  "gs \<noteq> [] \<Longrightarrow> drive pep479 (None # map Some gs, None) = (map Some gs, None)"
  by (cases gs) (simp_all add: drive_def)

lemma drive_more_slices:
  "drive pep479 (None # map Some gs @ [None], Some e) = (map Some gs @ [None], Some e)"
  by (cases gs) (simp_all add: drive_def)

lemma components_member:
  "c \<in> set (components es nodes seen vs) \<Longrightarrow> set vs \<subseteq> set nodes \<Longrightarrow>
   c \<noteq> [] \<and> set c \<subseteq> set nodes"
proof (induction vs arbitrary: seen)
  case Nil
  then show ?case by simp
next
  case (Cons v vs)
  show ?case
  proof (cases "v \<in> set seen")
    case True
    then show ?thesis using Cons by simp
  next
    case False
    have "v \<in> set (filter (connected es v) nodes)"
      using Cons.prems(2) by (simp add: connected_refl)
    then have "filter (connected es v) nodes \<noteq> []" by force
    then show ?thesis using Cons False by (auto simp: Let_def)
  qed
qed

lemma slices_member:
  assumes "s \<in> set (slices df)"
  shows "s \<noteq> [] \<and> set s \<subseteq> fst ` set (rows df)"
  using components_member[of s "graph_edges (rows df)" "graph_nodes (rows df)" "[]" "graph_nodes (rows df)"]
    assms by (simp add: slices_def Let_def set_graph_nodes)

lemma loc_nonempty:
  assumes "s \<noteq> []" "set s \<subseteq> fst ` set rs"
  shows "loc rs s \<noteq> []"
proof -
  obtain i where i: "i \<in> set s" using assms(1) by (cases s) auto
  then obtain r where "r \<in> set rs" "fst r = i" using assms(2) by auto
  then have "r \<in> set (loc rs s)" using i by (auto simp: loc_def)
  then show ?thesis by auto
qed

lemma slice_groups_nonempty:
  assumes "s \<in> set (slices df)"
  shows "slice_groups df s (keys, ascending, key) \<noteq> []"
    and "\<And>g. g \<in> set (slice_groups df s (keys, ascending, key)) \<Longrightarrow> g \<noteq> []"
proof -
  have "loc (rows df) s \<noteq> []"
    using slices_member[OF assms] loc_nonempty by blast
  then have "sort_values keys ascending (loc (rows df) s) \<noteq> []"
    using set_sort_values[of keys ascending "loc (rows df) s"] by (metis set_empty)
  then show "slice_groups df s (keys, ascending, key) \<noteq> []"
    by (simp add: slice_groups_def groupby_nonempty)
  show "g \<noteq> []" if "g \<in> set (slice_groups df s (keys, ascending, key))" for g
    using that groupby_member[of _ g key] by (auto simp: slice_groups_def)
qed


lemma tiles_along_X_one_slice:
  assumes "slices (data_frame fm) = [s]"
  shows "tiles_along_X pep479 fm =
     (map Some (slice_groups (data_frame fm) s ([CZ, CX, CY], ascending_tiles_X fm, CY)), None)"
  using slice_groups_nonempty(1)[of s "data_frame fm"] assms
  by (simp add: tiles_along_X_def tiles_along_dir_one_send drive_one_slice)

lemma tiles_along_X_more_slices:
  assumes "slices (data_frame fm) = s # s' # ss"
  shows "tiles_along_X pep479 fm =
     (map Some (slice_groups (data_frame fm) s ([CZ, CX, CY], ascending_tiles_X fm, CY)) @ [None],
      Some (Exn TypeError [''NoneType object is not subscriptable'']))"
  using assms by (simp add: tiles_along_X_def tiles_along_dir_one_send drive_more_slices)

lemma tiles_along_Y_more_slices:
  assumes "slices (data_frame fm) = s # s' # ss"
  shows "tiles_along_Y pep479 fm =
     (map Some (slice_groups (data_frame fm) s ([CZ, CY, CX], ascending_tiles_Y fm, CX)) @ [None],
      Some (Exn TypeError [''NoneType object is not subscriptable'']))"
  using assms by (simp add: tiles_along_Y_def tiles_along_dir_one_send drive_more_slices)

lemma tiles_along_empty:
  assumes "slices (data_frame fm) = []"
  shows "tiles_along_X pep479 fm = ([], stop_iteration pep479 None)"
    and "tiles_along_Y pep479 fm = ([], stop_iteration pep479 None)"
  using assms by (simp_all add: tiles_along_X_def tiles_along_Y_def drive_def)


text \<open>
  The sum telescopes: the extent of a column is the \<^verbatim>\<open>Ys\<close> value of its last tile plus
  the \<open>ysize\<close> of its first tile.
\<close>

lemma sum_successive_differences:
  fixes x :: int
  shows "sum_list (map (\<lambda>(a, b). b - a) (zip (x # xs) xs)) = last (x # xs) - x"
  by (induction xs arbitrary: x) auto

lemma sum_rounded_diffs:
  assumes "g \<noteq> []"
  shows "sum_list (rounded_diffs ys g) = ys (fst (last g)) - ys (fst (hd g))"
proof -
  obtain r g' where g: "g = r # g'" using assms by (cases g) auto
  have "rounded_diffs ys g =
      0 # map (\<lambda>(a, b). b - a) (zip (ys (fst r) # map (\<lambda>r. ys (fst r)) g') (map (\<lambda>r. ys (fst r)) g'))"
    by (simp add: rounded_diffs_def diff_def rint_def g split_def comp_def)
  then have "sum_list (rounded_diffs ys g) = last (ys (fst r) # map (\<lambda>r. ys (fst r)) g') - ys (fst r)"
    using sum_successive_differences[of "ys (fst r)" "map (\<lambda>r. ys (fst r)) g'"] by simp
  also have "last (ys (fst r) # map (\<lambda>r. ys (fst r)) g') = ys (fst (last g))"
    using last_map[of "r # g'" "\<lambda>r. ys (fst r)"] by (simp add: g)
  finally show ?thesis by (simp add: g)
qed

lemma length_rounded_diffs: "length (rounded_diffs ys g) = length g"
  by (simp add: rounded_diffs_def length_diff)

lemma sum_overlap_contributions:
  "sum_list (overlap_contributions ys g) =
     sum_list (map (\<lambda>r. ysize (snd r)) g) - sum_list (rounded_diffs ys g)"
proof -
  have "length ds = length g \<Longrightarrow>
      sum_list (map (\<lambda>(r, d). ysize (snd r) - d) (zip g ds)) =
        sum_list (map (\<lambda>r. ysize (snd r)) g) - sum_list ds" for ds :: "int list"
    by (induction g ds rule: list_induct2') auto
  then show ?thesis
    by (simp add: overlap_contributions_def length_rounded_diffs)
qed

lemma column_extent_closed_form:
  "g \<noteq> [] \<Longrightarrow> column_extent ys g = ys (fst (last g)) + ysize (snd (hd g))"
  by (simp add: column_extent_def sum_overlap_contributions sum_rounded_diffs)

section \<open>The example catalogs\<close>

lemma FileMatrix_init_flat:
  assumes "all_loggable InputFile (map (path_join d) files)" "basename d = []"
  shows "FileMatrix_init InputFile (flat_walk files) d =
     Inr (\<lparr>dir = d, data_frame = table_of (survivors InputFile (map (path_join d) files)),
            ascending_tiles_X = True, ascending_tiles_Y = True\<rparr>,
          failure_log InputFile (map (path_join d) files))"
proof -
  have c: "candidates (flat_walk files d) = map (path_join d) files"
    using assms(2) by (simp add: candidates_def flat_walk_def)
  show ?thesis
    using load_dir_total[of InputFile "flat_walk files" d] assms(1)
    by (simp add: FileMatrix_init_def c)
qed

lemma basename_tiles: "basename ''tiles/'' = []"
  by code_simp

lemma outcomes_examples:
  "outcome (const_reader n ys xs) ''tiles/0_0_0'' = Inr (0, 0, 0, n, ys, xs, ''tiles/0_0_0'')"
  "outcome (const_reader n ys xs) ''tiles/0_0_10'' = Inr (0, 0, 10, n, ys, xs, ''tiles/0_0_10'')"
  "outcome (const_reader n ys xs) ''tiles/0_1_0'' = Inr (0, 1, 0, n, ys, xs, ''tiles/0_1_0'')"
  "outcome (const_reader n ys xs) ''tiles/1_0_0'' = Inr (1, 0, 0, n, ys, xs, ''tiles/1_0_0'')"
  "outcome (const_reader n ys xs) ''tiles/junk'' = Inl (Exn ValueError [''Invalid name junk''])"
  "outcome (const_reader n ys xs) ''tiles/0_90_0'' = Inr (0, 90, 0, n, ys, xs, ''tiles/0_90_0'')"
proof -
  have p: "parse_file_name ''tiles/0_0_0'' = Inr [0, 0, 0]"
    "parse_file_name ''tiles/0_0_10'' = Inr [0, 0, 10]"
    "parse_file_name ''tiles/0_1_0'' = Inr [0, 1, 0]"
    "parse_file_name ''tiles/1_0_0'' = Inr [1, 0, 0]"
    "parse_file_name ''tiles/junk'' = Inl (Exn ValueError [''Invalid name junk''])"
    "parse_file_name ''tiles/0_90_0'' = Inr [0, 90, 0]"
    by code_simp+
  show "outcome (const_reader n ys xs) ''tiles/0_0_0'' = Inr (0, 0, 0, n, ys, xs, ''tiles/0_0_0'')"
    "outcome (const_reader n ys xs) ''tiles/0_0_10'' = Inr (0, 0, 10, n, ys, xs, ''tiles/0_0_10'')"
    "outcome (const_reader n ys xs) ''tiles/0_1_0'' = Inr (0, 1, 0, n, ys, xs, ''tiles/0_1_0'')"
    "outcome (const_reader n ys xs) ''tiles/1_0_0'' = Inr (1, 0, 0, n, ys, xs, ''tiles/1_0_0'')"
    "outcome (const_reader n ys xs) ''tiles/junk'' = Inl (Exn ValueError [''Invalid name junk''])"
    "outcome (const_reader n ys xs) ''tiles/0_90_0'' = Inr (0, 90, 0, n, ys, xs, ''tiles/0_90_0'')"
    by (simp_all add: outcome_def p const_reader_def)
qed

lemmas load_simps = all_loggable_def survivors_def failure_log_def outcomes_examples table_of_def
  raw_Z_def raw_Y_def raw_X_def path_join_def loggable_def catalog_def mk_tile_def

lemma loaded_examples:
  "FileMatrix_init (const_reader 10 100 100) (flat_walk [''0_0_0'', ''0_90_0'']) ''tiles/''
     = Inr (two_stacked, [])"
  "FileMatrix_init (const_reader 10 50 50) (flat_walk [''0_0_0'']) ''tiles/'' = Inr (single_tile, [])"
  "FileMatrix_init (const_reader 5 100 100) (flat_walk [''0_0_0'', ''0_0_10'']) ''tiles/''
     = Inr (two_slices, [])"
  "FileMatrix_init (const_reader 10 100 100) (flat_walk [''0_1_0'', ''1_0_0'']) ''tiles/''
     = Inr (crossed, [])"
  "FileMatrix_init (const_reader 10 100 100) (flat_walk [''0_0_0'', ''1_0_0'']) ''tiles/''
     = Inr (side_by_side, [])"
  "FileMatrix_init (const_reader 10 100 100) (flat_walk [''junk'']) ''tiles/''
     = Inr (no_tiles, [''Invalid name junk''])"
proof -
  note b = basename_tiles
  show "FileMatrix_init (const_reader 10 100 100) (flat_walk [''0_0_0'', ''0_90_0'']) ''tiles/''
     = Inr (two_stacked, [])"
    using FileMatrix_init_flat[of "const_reader 10 100 100" "''tiles/''" "[''0_0_0'', ''0_90_0'']"] b
    by (simp add: load_simps two_stacked_def)
  show "FileMatrix_init (const_reader 10 50 50) (flat_walk [''0_0_0'']) ''tiles/'' = Inr (single_tile, [])"
    using FileMatrix_init_flat[of "const_reader 10 50 50" "''tiles/''" "[''0_0_0'']"] b
    by (simp add: load_simps single_tile_def)
  show "FileMatrix_init (const_reader 5 100 100) (flat_walk [''0_0_0'', ''0_0_10'']) ''tiles/''
     = Inr (two_slices, [])"
    using FileMatrix_init_flat[of "const_reader 5 100 100" "''tiles/''" "[''0_0_0'', ''0_0_10'']"] b
    by (simp add: load_simps two_slices_def)
  show "FileMatrix_init (const_reader 10 100 100) (flat_walk [''0_1_0'', ''1_0_0'']) ''tiles/''
     = Inr (crossed, [])"
    using FileMatrix_init_flat[of "const_reader 10 100 100" "''tiles/''" "[''0_1_0'', ''1_0_0'']"] b
    by (simp add: load_simps crossed_def)
  show "FileMatrix_init (const_reader 10 100 100) (flat_walk [''0_0_0'', ''1_0_0'']) ''tiles/''
     = Inr (side_by_side, [])"
    using FileMatrix_init_flat[of "const_reader 10 100 100" "''tiles/''" "[''0_0_0'', ''1_0_0'']"] b
    by (simp add: load_simps side_by_side_def)
  show "FileMatrix_init (const_reader 10 100 100) (flat_walk [''junk'']) ''tiles/''
     = Inr (no_tiles, [''Invalid name junk''])"
    using FileMatrix_init_flat[of "const_reader 10 100 100" "''tiles/''" "[''junk'']"] b
    by (simp add: load_simps no_tiles_def)
qed


lemma slices_catalog_same:
  assumes "rs \<noteq> []" "distinct (map fst rs)"
    "list_all (\<lambda>r. Z (snd r) = z \<and> Z_end (snd r) = ze) rs"
  shows "slices (data_frame (catalog d rs)) = [map fst rs]"
proof -
  have "slices (data_frame (catalog d rs)) = [graph_nodes (rows (data_frame (catalog d rs)))]"
    by (rule slices_same_range[of _ z ze]) (use assms in \<open>auto simp: catalog_def list_all_iff\<close>)
  then show ?thesis
    using graph_nodes_distinct_labels[OF assms(2)] by (simp add: catalog_def)
qed

lemma example_slices:
  "slices (data_frame two_stacked) = [[0, 1]]"
  "slices (data_frame single_tile) = [[0]]"
  "slices (data_frame two_slices) = [[0], [1]]"
  "slices (data_frame crossed) = [[1, 0]]"
  "slices (data_frame side_by_side) = [[0, 1]]"
  "slices (data_frame no_tiles) = []"
proof -
  show "slices (data_frame two_stacked) = [[0, 1]]"
    unfolding two_stacked_def
    by (subst slices_catalog_same[of _ 0 10]) (simp_all add: mk_tile_def add_Z_end_def)
  show "slices (data_frame single_tile) = [[0]]"
    unfolding single_tile_def
    by (subst slices_catalog_same[of _ 0 10]) (simp_all add: mk_tile_def add_Z_end_def)
  show "slices (data_frame crossed) = [[1, 0]]"
    unfolding crossed_def
    by (subst slices_catalog_same[of _ 0 10]) (simp_all add: mk_tile_def add_Z_end_def)
  show "slices (data_frame side_by_side) = [[0, 1]]"
    unfolding side_by_side_def
    by (subst slices_catalog_same[of _ 0 10]) (simp_all add: mk_tile_def add_Z_end_def)
  show "slices (data_frame two_slices) = [[0], [1]]"
    using slices_two_disjoint[of "data_frame two_slices" 0 _ 1 _]
    by (simp add: two_slices_def catalog_def mk_tile_def add_Z_end_def)
  show "slices (data_frame no_tiles) = []"
    by (simp add: slices_def no_tiles_def catalog_def graph_nodes_def)
qed

section \<open>The claims about slices, the generators and the empty catalog\<close>

text \<open>
  C6.  If the table is not empty and all its tiles have the same \<open>Z\<close> and the same
  \<open>Z_end\<close>, \<^verbatim>\<open>slices\<close> yields exactly one component, which holds every index label.  If
  the table holds exactly two tiles whose depth ranges \<open>[Z, Z_end)\<close> are not empty and
  are disjoint, \<^verbatim>\<open>slices\<close> yields two components with one tile each.
\<close>

theorem slices_components:
  "(rows df \<noteq> [] \<and> (\<forall>r\<in>set (rows df). Z (snd r) = z \<and> Z_end (snd r) = ze) \<longrightarrow>
      map set (slices df) = [fst ` set (rows df)]) \<and>
   (rows df = [(i, a), (j, b)] \<and> i \<noteq> j \<and> Z a < Z_end a \<and> Z b < Z_end b \<and>
    (Z_end a \<le> Z b \<or> Z_end b \<le> Z a) \<longrightarrow>
      slices df = [[i], [j]])"
proof (intro conjI impI)
  assume h: "rows df \<noteq> [] \<and> (\<forall>r\<in>set (rows df). Z (snd r) = z \<and> Z_end (snd r) = ze)"
  then have "slices df = [graph_nodes (rows df)]"
    using slices_same_range[of df z ze] by blast
  then show "map set (slices df) = [fst ` set (rows df)]"
    by (simp add: set_graph_nodes)
next
  assume "rows df = [(i, a), (j, b)] \<and> i \<noteq> j \<and> Z a < Z_end a \<and> Z b < Z_end b \<and>
    (Z_end a \<le> Z b \<or> Z_end b \<le> Z a)"
  then show "slices df = [[i], [j]]"
    using slices_two_disjoint[of df i a j b] by blast
qed

theorem slices_components_witness:
  "rows (data_frame two_stacked) \<noteq> [] \<and>
   list_all (\<lambda>r. Z (snd r) = 0 \<and> Z_end (snd r) = 10) (rows (data_frame two_stacked)) \<and>
   map set (slices (data_frame two_stacked)) = [{0, 1}] \<and>
   rows (data_frame two_slices) =
     [(0, mk_tile 0 0 0 5 100 100 ''tiles/0_0_0''), (1, mk_tile 0 0 10 5 100 100 ''tiles/0_0_10'')] \<and>
   Z (mk_tile 0 0 0 5 100 100 ''tiles/0_0_0'') = 0 \<and>
   Z_end (mk_tile 0 0 0 5 100 100 ''tiles/0_0_0'') = 5 \<and>
   Z (mk_tile 0 0 10 5 100 100 ''tiles/0_0_10'') = 10 \<and>
   Z_end (mk_tile 0 0 10 5 100 100 ''tiles/0_0_10'') = 15 \<and>
   slices (data_frame two_slices) = [[0], [1]]"
proof -
  have a: "rows (data_frame two_stacked) \<noteq> [] \<and>
     (\<forall>r\<in>set (rows (data_frame two_stacked)). Z (snd r) = 0 \<and> Z_end (snd r) = 10)"
    by (simp add: two_stacked_def catalog_def mk_tile_def add_Z_end_def)
  have a': "rows (data_frame two_stacked) \<noteq> [] \<and>
     list_all (\<lambda>r. Z (snd r) = 0 \<and> Z_end (snd r) = 10) (rows (data_frame two_stacked))"
    using a by (simp add: list_all_iff)
  have b: "rows (data_frame two_slices) =
     [(0, mk_tile 0 0 0 5 100 100 ''tiles/0_0_0''), (1, mk_tile 0 0 10 5 100 100 ''tiles/0_0_10'')]"
    by (simp add: two_slices_def catalog_def)
  have c: "Z (mk_tile 0 0 0 5 100 100 ''tiles/0_0_0'') = 0"
    "Z_end (mk_tile 0 0 0 5 100 100 ''tiles/0_0_0'') = 5"
    "Z (mk_tile 0 0 10 5 100 100 ''tiles/0_0_10'') = 10"
    "Z_end (mk_tile 0 0 10 5 100 100 ''tiles/0_0_10'') = 15"
    by (simp_all add: mk_tile_def add_Z_end_def)
  have "map set (slices (data_frame two_stacked)) = [fst ` set (rows (data_frame two_stacked))]"
    using slices_components[of "data_frame two_stacked" 0 10] a by blast
  then have d: "map set (slices (data_frame two_stacked)) = [{0, 1}]"
    by (simp add: two_stacked_def catalog_def insert_commute)
  have e: "slices (data_frame two_slices) = [[0], [1]]"
    using slices_components[of "data_frame two_slices" _ _ 0 "mk_tile 0 0 0 5 100 100 ''tiles/0_0_0''"
        1 "mk_tile 0 0 10 5 100 100 ''tiles/0_0_10''"] b c
    by simp
  show ?thesis using a' b c d e by blast
qed


lemmas eval_simps = catalog_def mk_tile_def add_Z_end_def slice_groups_def loc_def sort_values_def
  sort_keys_def groupby_def

text \<open>
  C2 (the code departs from the claim).  The catalog \<open>two_slices\<close> has two slices with one
  group each.  \<^verbatim>\<open>tiles_along_X\<close> and \<^verbatim>\<open>tiles_along_Y\<close> yield the group of the first slice,
  then \<^verbatim>\<open>None\<close> (the bare \<^verbatim>\<open>yield\<close> of the second round of the loop, passed on by
  \<^verbatim>\<open>yield from\<close>), and then raise TypeError, because the generator is resumed without a
  value and evaluates \<^verbatim>\<open>got[0]\<close>.  The group of the second slice is never yielded.
\<close>

theorem tiles_along_stops_after_first_slice:
  "slices (data_frame two_slices) = [[0], [1]] \<and>
   all_groups (data_frame two_slices) ([CZ, CX, CY], True, CY) =
     [[(0, mk_tile 0 0 0 5 100 100 ''tiles/0_0_0'')], [(1, mk_tile 0 0 10 5 100 100 ''tiles/0_0_10'')]] \<and>
   tiles_along_X pep479 two_slices =
     ([Some [(0, mk_tile 0 0 0 5 100 100 ''tiles/0_0_0'')], None],
      Some (Exn TypeError [''NoneType object is not subscriptable''])) \<and>
   tiles_along_Y pep479 two_slices =
     ([Some [(0, mk_tile 0 0 0 5 100 100 ''tiles/0_0_0'')], None],
      Some (Exn TypeError [''NoneType object is not subscriptable'']))"
proof -
  note s = example_slices(3)
  have a: "all_groups (data_frame two_slices) ([CZ, CX, CY], True, CY) =
     [[(0, mk_tile 0 0 0 5 100 100 ''tiles/0_0_0'')], [(1, mk_tile 0 0 10 5 100 100 ''tiles/0_0_10'')]]"
    unfolding all_groups_def s by (simp add: two_slices_def eval_simps)
  have x: "tiles_along_X pep479 two_slices =
     ([Some [(0, mk_tile 0 0 0 5 100 100 ''tiles/0_0_0'')], None],
      Some (Exn TypeError [''NoneType object is not subscriptable'']))"
    unfolding tiles_along_X_more_slices[OF s] by (simp add: two_slices_def eval_simps)
  have y: "tiles_along_Y pep479 two_slices =
     ([Some [(0, mk_tile 0 0 0 5 100 100 ''tiles/0_0_0'')], None],
      Some (Exn TypeError [''NoneType object is not subscriptable'']))"
    unfolding tiles_along_Y_more_slices[OF s] by (simp add: two_slices_def eval_simps)
  show ?thesis using s a x y by simp
qed

lemma full_height_empty:
  assumes "slices (data_frame fm) = []"
  shows "full_height pep479 fm =
     Inl (if pep479 then Exn RuntimeError [''generator raised StopIteration'']
          else Exn ValueError [''max() arg is an empty sequence''])"
  by (simp add: full_height_def tiles_along_empty(2)[OF assms] stop_iteration_def)

lemma slices_no_rows: "rows df = [] \<Longrightarrow> slices df = []"
  by (simp add: slices_def graph_nodes_def)

text \<open>
  C9, as stated, fails: on the catalog loaded from a directory without any tile,
  \<^verbatim>\<open>full_height\<close> raises (with PEP 479 the RuntimeError that ends \<^verbatim>\<open>tiles_along_Y\<close>, before
  it the ValueError of \<^verbatim>\<open>max\<close>).
\<close>

theorem empty_catalog_counterexample:
  "FileMatrix_init (const_reader 10 100 100) (flat_walk [''junk'']) ''tiles/''
     = Inr (no_tiles, [''Invalid name junk'']) \<and>
   full_height True no_tiles = Inl (Exn RuntimeError [''generator raised StopIteration'']) \<and>
   full_height False no_tiles = Inl (Exn ValueError [''max() arg is an empty sequence''])"
  using loaded_examples(6) full_height_empty[OF example_slices(6)] by simp

text \<open>
  C9, amended.  When no candidate survives (and every failure can be logged) \<^verbatim>\<open>load_dir\<close>
  returns the empty table.  On a catalog whose table is empty \<^verbatim>\<open>slices\<close> yields no
  component, \<^verbatim>\<open>tiles_along_X\<close> and \<^verbatim>\<open>tiles_along_Y\<close> yield no group, and \<^verbatim>\<open>full_height\<close>
  raises an exception.
\<close>

theorem empty_catalog_queries:
  "(survivors InputFile (candidates (walk d)) = [] \<and> all_loggable InputFile (candidates (walk d)) \<longrightarrow>
      load_dir InputFile walk d =
        Inr (\<lparr>rows = [], columns_extra = (\<lambda>c. None)\<rparr>, failure_log InputFile (candidates (walk d)))) \<and>
   (rows (data_frame fm) = [] \<longrightarrow>
      slices (data_frame fm) = [] \<and>
      fst (tiles_along_X pep479 fm) = [] \<and>
      fst (tiles_along_Y pep479 fm) = [] \<and>
      (\<exists>e. full_height pep479 fm = Inl e))"
proof (intro conjI impI)
  assume "survivors InputFile (candidates (walk d)) = [] \<and> all_loggable InputFile (candidates (walk d))"
  then show "load_dir InputFile walk d =
        Inr (\<lparr>rows = [], columns_extra = (\<lambda>c. None)\<rparr>, failure_log InputFile (candidates (walk d)))"
    using load_dir_total[of InputFile walk d] by (simp add: table_of_def)
next
  assume "rows (data_frame fm) = []"
  then have s: "slices (data_frame fm) = []" by (rule slices_no_rows)
  show "slices (data_frame fm) = []" by (rule s)
  show "fst (tiles_along_X pep479 fm) = []" by (simp add: tiles_along_empty(1)[OF s])
  show "fst (tiles_along_Y pep479 fm) = []" by (simp add: tiles_along_empty(2)[OF s])
  show "\<exists>e. full_height pep479 fm = Inl e" using full_height_empty[OF s] by blast
qed

theorem empty_catalog_queries_witness:
  "survivors (const_reader 10 100 100) (candidates (flat_walk [''junk''] ''tiles/'')) = [] \<and>
   all_loggable (const_reader 10 100 100) (candidates (flat_walk [''junk''] ''tiles/'')) \<and>
   load_dir (const_reader 10 100 100) (flat_walk [''junk'']) ''tiles/'' =
     Inr (\<lparr>rows = [], columns_extra = (\<lambda>c. None)\<rparr>, [''Invalid name junk'']) \<and>
   rows (data_frame no_tiles) = [] \<and>
   slices (data_frame no_tiles) = [] \<and>
   fst (tiles_along_X True no_tiles) = [] \<and>
   fst (tiles_along_Y True no_tiles) = [] \<and>
   (\<exists>e. full_height True no_tiles = Inl e)"
proof -
  have c: "candidates (flat_walk [''junk''] ''tiles/'') = [''tiles/junk'']"
    by (simp add: candidates_def flat_walk_def basename_tiles path_join_def)
  have a: "survivors (const_reader 10 100 100) (candidates (flat_walk [''junk''] ''tiles/'')) = []"
    "all_loggable (const_reader 10 100 100) (candidates (flat_walk [''junk''] ''tiles/''))"
    "failure_log (const_reader 10 100 100) (candidates (flat_walk [''junk''] ''tiles/'')) = [''Invalid name junk'']"
    by (simp_all add: c load_simps)
  have r: "rows (data_frame no_tiles) = []" by (simp add: no_tiles_def catalog_def)
  show ?thesis
    using empty_catalog_queries[of "const_reader 10 100 100" "flat_walk [''junk'']" "''tiles/''"
        no_tiles True] a r
    by simp
qed

section \<open>The claim about \<^verbatim>\<open>full_height\<close>\<close>





section \<open>The claims about the order of the groups and of the sort\<close>

lemma slice_groups_flag:
  "map set (slice_groups df s (keys, a, key)) = map set (slice_groups df s (keys, b, key))"
proof -
  have "set (sort_values keys a (loc (rows df) s)) = set (sort_values keys b (loc (rows df) s))"
    by (simp add: set_sort_values)
  then have "map (\<lambda>(k, g). set g) (groupby key (sort_values keys a (loc (rows df) s)))
      = map (\<lambda>(k, g). set g) (groupby key (sort_values keys b (loc (rows df) s)))"
    by (rule groupby_same_set(2))
  then show ?thesis by (simp add: slice_groups_def split_def comp_def)
qed

lemma tiles_along_X_flag:
  "map (map_option set) (fst (tiles_along_X pep479 (fm\<lparr>ascending_tiles_X := b\<rparr>)))
     = map (map_option set) (fst (tiles_along_X pep479 fm))"
proof -
  let ?df = "data_frame fm"
  let ?g = "\<lambda>a s. slice_groups ?df s ([CZ, CX, CY], a, CY)"
  have h: "map (map_option set) (map Some xs) = map Some (map set xs)"
    for xs :: "(nat \<times> tile) list list"
    by (induction xs) auto
  have m: "map (map_option set) (map Some (?g a s)) = map (map_option set) (map Some (?g c s))"
    for a c s
    unfolding h using slice_groups_flag[of ?df s "[CZ, CX, CY]" a CY c] by (rule arg_cong)
  show ?thesis
  proof (cases "slices ?df")
    case Nil
    then show ?thesis by (simp add: tiles_along_X_def drive_def)
  next
    case (Cons s ss)
    show ?thesis
    proof (cases ss)
      case Nil
      have 1: "slices (data_frame (fm\<lparr>ascending_tiles_X := b\<rparr>)) = [s]" "slices ?df = [s]"
        using Cons Nil by simp_all
      show ?thesis
        unfolding tiles_along_X_one_slice[OF 1(1)] tiles_along_X_one_slice[OF 1(2)]
        using m[of s b "ascending_tiles_X fm"] by simp
    next
      case (Cons s' ss')
      have 1: "slices (data_frame (fm\<lparr>ascending_tiles_X := b\<rparr>)) = s # s' # ss'"
        "slices ?df = s # s' # ss'"
        using \<open>slices ?df = s # ss\<close> Cons by simp_all
      show ?thesis
        unfolding tiles_along_X_more_slices[OF 1(1)] tiles_along_X_more_slices[OF 1(2)]
        using m[of s b "ascending_tiles_X fm"] by simp
    qed
  qed
qed

lemma hd_filter: "filter P xs \<noteq> [] \<Longrightarrow> P (hd (filter P xs))"
  by (induction xs) auto

lemma slice_groups_keys:
  "map (\<lambda>g. col key (snd (hd g))) (slice_groups df s (keys, a, key))
     = sorted_list_of_set ((\<lambda>r. col key (snd r)) ` set (loc (rows df) s))"
proof -
  let ?xs = "sort_values keys a (loc (rows df) s)"
  have "col key (snd (hd g)) = k" if "(k, g) \<in> set (groupby key ?xs)" for k g
  proof -
    have g: "g = filter (\<lambda>r. col key (snd r) = k) ?xs" "g \<noteq> []"
      using groupby_member[OF that] by blast+
    show ?thesis
      using hd_filter[of "\<lambda>r. col key (snd r) = k" ?xs] g by simp
  qed
  then have "map (\<lambda>p. col key (snd (hd (snd p)))) (groupby key ?xs) = map fst (groupby key ?xs)"
    by (intro map_cong) auto
  then show ?thesis
    by (simp add: slice_groups_def comp_def groupby_keys set_sort_values)
qed

lemma crossed_groups:
  "slice_groups (data_frame crossed) [1, 0] ([CZ, CX, CY], a, CY) =
     [[(1, mk_tile 1 0 0 10 100 100 ''tiles/1_0_0'')], [(0, mk_tile 0 1 0 10 100 100 ''tiles/0_1_0'')]]"
  by (cases a) (simp_all add: crossed_def eval_simps)

text \<open>
  C4, as stated, fails.  In the catalog \<open>crossed\<close> the slice sorted by (Z, X, Y) starts
  with the tile whose Y is 1, so the run of Y = 1 is encountered first; \<^verbatim>\<open>tiles_along_X\<close>
  yields the group of Y = 0 first.  With \<^verbatim>\<open>ascending_tiles_X\<close> set to false it yields the
  groups in the same order, not in the reverse one.
\<close>

theorem group_order_counterexample:
  "sort_values [CZ, CX, CY] True (loc (rows (data_frame crossed)) [1, 0]) =
     [(0, mk_tile 0 1 0 10 100 100 ''tiles/0_1_0''), (1, mk_tile 1 0 0 10 100 100 ''tiles/1_0_0'')] \<and>
   claimed_groups (data_frame crossed) [1, 0] ([CZ, CX, CY], True, CY) =
     [[(0, mk_tile 0 1 0 10 100 100 ''tiles/0_1_0'')], [(1, mk_tile 1 0 0 10 100 100 ''tiles/1_0_0'')]] \<and>
   tiles_along_X True crossed =
     ([Some [(1, mk_tile 1 0 0 10 100 100 ''tiles/1_0_0'')],
       Some [(0, mk_tile 0 1 0 10 100 100 ''tiles/0_1_0'')]], None) \<and>
   tiles_along_X True (crossed\<lparr>ascending_tiles_X := False\<rparr>) =
     ([Some [(1, mk_tile 1 0 0 10 100 100 ''tiles/1_0_0'')],
       Some [(0, mk_tile 0 1 0 10 100 100 ''tiles/0_1_0'')]], None)"
proof -
  have a: "sort_values [CZ, CX, CY] True (loc (rows (data_frame crossed)) [1, 0]) =
     [(0, mk_tile 0 1 0 10 100 100 ''tiles/0_1_0''), (1, mk_tile 1 0 0 10 100 100 ''tiles/1_0_0'')]"
    by (simp add: crossed_def eval_simps)
  have b: "claimed_groups (data_frame crossed) [1, 0] ([CZ, CX, CY], True, CY) =
     [[(0, mk_tile 0 1 0 10 100 100 ''tiles/0_1_0'')], [(1, mk_tile 1 0 0 10 100 100 ''tiles/1_0_0'')]]"
    unfolding claimed_groups_def prod.case a by (simp add: mk_tile_def add_Z_end_def)
  have s: "slices (data_frame (crossed\<lparr>ascending_tiles_X := False\<rparr>)) = [[1, 0]]"
    using example_slices(4) by simp
  show ?thesis
    unfolding tiles_along_X_one_slice[OF example_slices(4)] tiles_along_X_one_slice[OF s]
    using a b by (simp add: crossed_groups[simplified])
qed

text \<open>
  C4, amended.  For every slice and either grouping direction the groups are yielded in
  increasing order of the value of the group key, whatever the order in which the values
  are encountered in the sorted sequence; every group holds the rows of the sorted
  sequence that have its key value, in the order of that sequence.  Flipping the flag
  changes neither the order in which the groups are yielded nor the membership of any
  group, in \<^verbatim>\<open>slice_groups\<close> and in what \<^verbatim>\<open>tiles_along_X\<close> yields.
\<close>

theorem groups_in_key_order:
  "map (\<lambda>g. col key (snd (hd g))) (slice_groups df s (keys, a, key))
     = sorted_list_of_set ((\<lambda>r. col key (snd r)) ` set (loc (rows df) s)) \<and>
   (\<forall>g \<in> set (slice_groups df s (keys, a, key)).
      g = filter (\<lambda>r. col key (snd r) = col key (snd (hd g))) (sort_values keys a (loc (rows df) s))) \<and>
   map set (slice_groups df s (keys, True, key)) = map set (slice_groups df s (keys, False, key)) \<and>
   map (map_option set) (fst (tiles_along_X pep479 (fm\<lparr>ascending_tiles_X := b\<rparr>)))
     = map (map_option set) (fst (tiles_along_X pep479 fm))"
proof (intro conjI ballI)
  show "map (\<lambda>g. col key (snd (hd g))) (slice_groups df s (keys, a, key))
     = sorted_list_of_set ((\<lambda>r. col key (snd r)) ` set (loc (rows df) s))"
    by (rule slice_groups_keys)
  show "map set (slice_groups df s (keys, True, key)) = map set (slice_groups df s (keys, False, key))"
    by (rule slice_groups_flag)
  show "map (map_option set) (fst (tiles_along_X pep479 (fm\<lparr>ascending_tiles_X := b\<rparr>)))
     = map (map_option set) (fst (tiles_along_X pep479 fm))"
    by (rule tiles_along_X_flag)
  fix g assume "g \<in> set (slice_groups df s (keys, a, key))"
  then obtain k where kg: "(k, g) \<in> set (groupby key (sort_values keys a (loc (rows df) s)))"
    by (auto simp: slice_groups_def)
  have g: "g = filter (\<lambda>r. col key (snd r) = k) (sort_values keys a (loc (rows df) s))" "g \<noteq> []"
    using groupby_member[OF kg] by blast+
  have "col key (snd (hd g)) = k"
    using hd_filter[of "\<lambda>r. col key (snd r) = k" "sort_values keys a (loc (rows df) s)"] g
    by simp
  then show "g = filter (\<lambda>r. col key (snd r) = col key (snd (hd g)))
      (sort_values keys a (loc (rows df) s))"
    using g(1) by simp
qed

theorem groups_in_key_order_witness:
  "set (slice_groups (data_frame crossed) [1, 0] ([CZ, CX, CY], True, CY)) =
     {[(1, mk_tile 1 0 0 10 100 100 ''tiles/1_0_0'')], [(0, mk_tile 0 1 0 10 100 100 ''tiles/0_1_0'')]} \<and>
   map (\<lambda>g. col CY (snd (hd g))) (slice_groups (data_frame crossed) [1, 0] ([CZ, CX, CY], True, CY))
     = [0, 1] \<and>
   [(1, mk_tile 1 0 0 10 100 100 ''tiles/1_0_0'')] =
     filter (\<lambda>r. col CY (snd r) = 0)
       (sort_values [CZ, CX, CY] True (loc (rows (data_frame crossed)) [1, 0]))"
proof -
  note inst = groups_in_key_order[where key = CY and df = "data_frame crossed" and s = "[1, 0]"
      and keys = "[CZ, CX, CY]" and a = True and ?pep479.0 = True and fm = crossed and b = True]
  have g: "slice_groups (data_frame crossed) [1, 0] ([CZ, CX, CY], True, CY) =
     [[(1, mk_tile 1 0 0 10 100 100 ''tiles/1_0_0'')], [(0, mk_tile 0 1 0 10 100 100 ''tiles/0_1_0'')]]"
    by (rule crossed_groups)
  have m: "[(1, mk_tile 1 0 0 10 100 100 ''tiles/1_0_0'')]
      \<in> set (slice_groups (data_frame crossed) [1, 0] ([CZ, CX, CY], True, CY))"
    unfolding g by simp
  have k: "(\<lambda>r. col CY (snd r)) ` set (loc (rows (data_frame crossed)) [1, 0]) = {0, 1}"
    by (auto simp: crossed_def eval_simps)
  have 1: "map (\<lambda>g. col CY (snd (hd g))) (slice_groups (data_frame crossed) [1, 0] ([CZ, CX, CY], True, CY))
     = sorted_list_of_set {0, 1}"
    using inst k by simp
  have 2: "[(1, mk_tile 1 0 0 10 100 100 ''tiles/1_0_0'')] =
     filter (\<lambda>r. col CY (snd r) = col CY (snd (hd [(1 :: nat, mk_tile 1 0 0 10 100 100 ''tiles/1_0_0'')])))
       (sort_values [CZ, CX, CY] True (loc (rows (data_frame crossed)) [1, 0]))"
    by (rule bspec[OF inst[THEN conjunct2, THEN conjunct1] m])
  have 3: "sorted_list_of_set {0, 1 :: int} = [0, 1]" by simp
  have 4: "col CY (snd (hd [(1 :: nat, mk_tile 1 0 0 10 100 100 ''tiles/1_0_0'')])) = 0"
    by (simp add: mk_tile_def add_Z_end_def)
  show ?thesis using 1 2 g unfolding 3 4 by simp
qed


text \<open>
  C5, as stated, fails.  The two tiles of \<open>side_by_side\<close> have the same Z and Y and the X
  coordinates 0 and 1.  With the flag false the sort by (Z, X, Y) puts X = 1 first: the
  second key is sorted in descending order too.  A sort that reverses the first key only
  would keep X = 0 first.  \<^verbatim>\<open>tiles_along_X\<close> shows the order inside the group it yields.
\<close>

theorem sort_direction_counterexample:
  "sort_values [CZ, CX, CY] False (rows (data_frame side_by_side)) =
     [(1, mk_tile 1 0 0 10 100 100 ''tiles/1_0_0''), (0, mk_tile 0 0 0 10 100 100 ''tiles/0_0_0'')] \<and>
   claimed_sort_values [CZ, CX, CY] False (rows (data_frame side_by_side)) =
     [(0, mk_tile 0 0 0 10 100 100 ''tiles/0_0_0''), (1, mk_tile 1 0 0 10 100 100 ''tiles/1_0_0'')] \<and>
   tiles_along_X True (side_by_side\<lparr>ascending_tiles_X := False\<rparr>) =
     ([Some [(1, mk_tile 1 0 0 10 100 100 ''tiles/1_0_0''),
             (0, mk_tile 0 0 0 10 100 100 ''tiles/0_0_0'')]], None)"
proof -
  have a: "sort_values [CZ, CX, CY] False (rows (data_frame side_by_side)) =
     [(1, mk_tile 1 0 0 10 100 100 ''tiles/1_0_0''), (0, mk_tile 0 0 0 10 100 100 ''tiles/0_0_0'')]"
    by (simp add: side_by_side_def eval_simps)
  have b: "claimed_sort_values [CZ, CX, CY] False (rows (data_frame side_by_side)) =
     [(0, mk_tile 0 0 0 10 100 100 ''tiles/0_0_0''), (1, mk_tile 1 0 0 10 100 100 ''tiles/1_0_0'')]"
    by (simp add: side_by_side_def claimed_sort_values_def claimed_sort_keys_def catalog_def
        mk_tile_def add_Z_end_def)
  have s: "slices (data_frame (side_by_side\<lparr>ascending_tiles_X := False\<rparr>)) = [[0, 1]]"
    using example_slices(5) by simp
  have c: "tiles_along_X True (side_by_side\<lparr>ascending_tiles_X := False\<rparr>) =
     ([Some [(1, mk_tile 1 0 0 10 100 100 ''tiles/1_0_0''),
             (0, mk_tile 0 0 0 10 100 100 ''tiles/0_0_0'')]], None)"
    unfolding tiles_along_X_one_slice[OF s] by (simp add: side_by_side_def eval_simps)
  show ?thesis using a b c by simp
qed

lemma mset_sort_values: "mset (sort_values keys ascending rs) = mset rs"
  by (simp add: sort_values_def)

text \<open>
  C5, amended.  The one flag sets the direction of all the sort keys: with the flag true
  the result is in ascending lexicographic order of the key values, with the flag false in
  descending lexicographic order.  In both cases the sort is stable (the rows with a given
  tuple of key values keep their relative order) and returns the same rows.
\<close>

theorem sort_values_all_keys:
  "sorted (map (key_of keys) (sort_values keys True rs)) \<and>
   sorted (rev (map (key_of keys) (sort_values keys False rs))) \<and>
   filter (\<lambda>r. key_of keys r = k) (sort_values keys ascending rs)
     = filter (\<lambda>r. key_of keys r = k) rs \<and>
   mset (sort_values keys ascending rs) = mset rs"
  using sort_values_ascending[of keys rs] sort_values_descending[of keys rs]
    sort_values_stable[of keys k ascending rs] mset_sort_values[of keys ascending rs]
  by simp

end
